theory Spec2Isabelle
  imports Complex_Main "HOL-Library.Word" "HOL-Library.Code_Target_Nat"
begin

unbundle bit_operations_syntax

section \<open>The game clock of the Win32 and libretro system layers\<close>

text \<open>
  This theory embeds the two bodies of \<open>Sys_DoubleTime\<close> (sys_win.c and
  sys_libretro.c) and the calibration routine \<open>Sys_InitTimers\<close> of sys_win.c.

  Conventions of the embedding.
  \<^item> \<open>unsigned int\<close> and \<open>DWORD\<close> are \<open>32 word\<close>: \<open>+\<close> and \<open>-\<close> wrap, \<open>\<le>\<close> and
    \<open><\<close> compare the unsigned values.
  \<^item> A \<open>double\<close> is modelled by the real number it denotes. In
    \<open>Sys_InitTimers\<close>, \<open>Sys_DoubleTime\<close> and \<open>Sys_DoubleTime_libretro\<close> sums,
    products and quotients are exact: rounding, infinities and NaN are outside
    these models. In C the test \<open>curtime == lastcurtime\<close> can succeed after a
    positive \<open>time\<close> was added, when the sum rounds back; with exact sums it
    cannot. \<open>Sys_DoubleTime_rounded\<close> is the same body with every \<open>double\<close>
    result rounded to binary64, and the properties of the stall breaker are
    stated for it. The calls \<open>Sys_PushFPCW_SetHigh\<close>, \<open>Sys_PopFPCW\<close>,
    \<open>MaskExceptions\<close> and \<open>Sys_SetFPCW\<close> only set the precision and exception
    mask of the FPU and have no counterpart here.
  \<^item> The file-level statics \<open>timer_*\<close> and the function-level statics
    \<open>curtime\<close>, \<open>lastcurtime\<close>, \<open>sametimecount\<close> form one record that every
    operation takes and returns.
  \<^item> What the operating system answers at a call (\<open>QueryPerformanceFrequency\<close>,
    \<open>QueryPerformanceCounter\<close>, \<open>timeGetTime\<close>, \<open>gettimeofday\<close>) is an
    argument of the operation.
\<close>

subsection \<open>Data\<close>

type_synonym u32 = "32 word"

text \<open>\<open>LARGE_INTEGER\<close>: the two 32-bit halves of a 64-bit count. The code casts
  both halves to \<open>unsigned int\<close> before use.\<close>

record LARGE_INTEGER =
  LowPart :: u32
  HighPart :: u32

text \<open>The answers of the Win32 calls made during one call of \<open>Sys_InitTimers\<close> or
  \<open>Sys_DoubleTime\<close>. \<open>QueryPerformanceFrequency\<close> is \<open>None\<close> when the call
  returns FALSE.\<close>

record winapi =
  QueryPerformanceFrequency :: "LARGE_INTEGER option"
  QueryPerformanceCounter :: LARGE_INTEGER
  timeGetTime :: u32

text \<open>The statics of sys_win.c that the clock uses. \<open>timer_lowshift\<close> and
  \<open>sametimecount\<close> are C \<open>int\<close>s; the first only counts loop iterations, the
  second stays between 0 and 100000, as shown below.\<close>

record timers =
  timer_pfreq :: real
  timer_lowshift :: nat
  timer_oldtime :: u32
  timer_fallback :: bool
  timer_fallback_start :: u32
  curtime :: real
  lastcurtime :: real
  sametimecount :: int

text \<open>Static storage is zero-initialised.\<close>

definition initial_timers :: timers where
  "initial_timers =
     \<lparr>timer_pfreq = 0, timer_lowshift = 0, timer_oldtime = 0, timer_fallback = False,
      timer_fallback_start = 0, curtime = 0, lastcurtime = 0, sametimecount = 0\<rparr>"

text \<open>\<open>LONG_MAX\<close> of \<open>limits.h\<close>: on Win32 \<open>long\<close> has 32 bits. In
  \<open>LONG_MAX - timer_fallback_start\<close> it is converted to \<open>DWORD\<close>.\<close>

definition LONG_MAX :: u32 where
  "LONG_MAX = 0x7FFFFFFF"

text \<open>The unsigned 64-bit value of the two halves (\<open>QuadPart\<close> in the Win32
  headers, read as unsigned). The code never forms it; the properties below use it
  to say what the shifted halves mean.\<close>

definition QuadPart :: "LARGE_INTEGER \<Rightarrow> nat" where
  "QuadPart x = unat (HighPart x) * 2 ^ 32 + unat (LowPart x)"

subsection \<open>Reading the performance counter\<close>

text \<open>
  \<open>temp = (unsigned int)pcount.LowPart >> timer_lowshift;
   temp |= (unsigned int)pcount.HighPart << (32 - timer_lowshift);\<close>

  The source writes this pair of statements twice, in \<open>Sys_InitTimers\<close> and in
  \<open>Sys_DoubleTime\<close>. C defines both shifts only for \<open>0 < timer_lowshift < 32\<close>
  (a shift count of 32 or more, or a negative one, is undefined; x86 code takes
  the count modulo 32). The model shifts 32-bit words, losing the bits shifted
  out, and cuts the difference \<open>32 - timer_lowshift\<close> off at 0, so it differs from
  x86 code for \<open>timer_lowshift = 0\<close> with a nonzero high half and for
  \<open>timer_lowshift \<ge> 32\<close>; the properties below interpret the result only for
  \<open>0 < timer_lowshift < 32\<close>.
\<close>

definition shifted_count :: "nat \<Rightarrow> LARGE_INTEGER \<Rightarrow> u32" where
  "shifted_count lowshift pcount =
     drop_bit lowshift (LowPart pcount) OR push_bit (32 - lowshift) (HighPart pcount)"

subsection \<open>\<open>Sys_DoubleTime\<close> of sys_win.c\<close>

definition Sys_DoubleTime :: "winapi \<Rightarrow> timers \<Rightarrow> real \<times> timers" where
  "Sys_DoubleTime api s =
     (if timer_fallback s then
        (let now = timeGetTime api in
         if now < timer_fallback_start s
         then (real (unat (now + (LONG_MAX - timer_fallback_start s))) / 1000, s)
         else (real (unat (now - timer_fallback_start s)) / 1000, s))
      else
        (let temp = shifted_count (timer_lowshift s) (QueryPerformanceCounter api) in
         if temp \<le> timer_oldtime s \<and> timer_oldtime s - temp < 0x10000000
         then (curtime s, s\<lparr>timer_oldtime := temp\<rparr>)
         else
           (let t2 = temp - timer_oldtime s;
                time = real (unat t2) * timer_pfreq s;
                s1 = s\<lparr>timer_oldtime := temp, curtime := curtime s + time\<rparr>;
                s2 = (if curtime s1 = lastcurtime s1
                      then (let s3 = s1\<lparr>sametimecount := sametimecount s1 + 1\<rparr> in
                            if sametimecount s3 > 100000
                            then s3\<lparr>curtime := curtime s3 + 1, sametimecount := 0\<rparr>
                            else s3)
                      else s1\<lparr>sametimecount := 0\<rparr>);
                s4 = s2\<lparr>lastcurtime := curtime s2\<rparr>
            in (curtime s4, s4))))"

text \<open>The value returned by each call of a sequence of calls, oldest first, and the
  statics after the last one.\<close>

fun Sys_DoubleTime_calls :: "winapi list \<Rightarrow> timers \<Rightarrow> real list \<times> timers" where
  "Sys_DoubleTime_calls [] s = ([], s)"
| "Sys_DoubleTime_calls (api # apis) s =
     (fst (Sys_DoubleTime api s) #
        fst (Sys_DoubleTime_calls apis (snd (Sys_DoubleTime api s))),
      snd (Sys_DoubleTime_calls apis (snd (Sys_DoubleTime api s))))"

subsection \<open>\<open>Sys_DoubleTime\<close> with rounded doubles\<close>

text \<open>
  The stall test \<open>curtime == lastcurtime\<close> of \<open>Sys_DoubleTime\<close> succeeds in C when
  the delta added to \<open>curtime\<close> is rounded away. For the properties of the stall
  breaker the body is therefore taken a second time, with every \<open>double\<close> result
  rounded as IEEE 754 binary64 prescribes: to the nearest number with a 53-bit
  significand, ties to the even significand, with exponents down to \<open>2^-1074\<close>
  (results of magnitude \<open>2^1024\<close> and more, which C turns into infinities, are
  outside the model).

  \<open>binade x\<close> is the exponent \<open>n\<close> with \<open>2^n \<le> x < 2^(n+1)\<close> of a positive \<open>x\<close>,
  \<open>rne\<close> rounds to the nearest integer, ties to even, and \<open>double_round\<close> rounds
  a real to binary64.
\<close>

function binade :: "real \<Rightarrow> int" where
  "binade x =
     (if 2 \<le> x then binade (x / 2) + 1
      else if 0 < x \<and> x < 1 then binade (x * 2) - 1
      else 0)"
  by pat_completeness auto

termination binade
proof (relation "measure (\<lambda>x. if 1 \<le> x then nat \<lfloor>x\<rfloor> else nat \<lceil>1 / x\<rceil>)", goal_cases)
  case 1
  show ?case by simp
next
  case (2 x)
  then have "\<lfloor>x / 2\<rfloor> < \<lfloor>x\<rfloor>" by linarith
  moreover from 2 have "0 < \<lfloor>x\<rfloor>" by linarith
  ultimately show ?case using 2 by simp
next
  case (3 x)
  then have x: "0 < x" "x < 1" by simp_all
  show ?case
  proof (cases "1 \<le> x * 2")
    case True
    with x have "\<lfloor>x * 2\<rfloor> = 1" by linarith
    moreover from x have "1 < 1 / x" by simp
    then have "2 \<le> \<lceil>1 / x\<rceil>" by linarith
    ultimately show ?thesis using True x by simp
  next
    case False
    with x have h: "2 < 1 / x" by (simp add: field_simps)
    have "1 / (x * 2) = (1 / x) / 2" by simp
    with h have "\<lceil>1 / (x * 2)\<rceil> < \<lceil>1 / x\<rceil>" by linarith
    moreover from h have "0 < \<lceil>1 / x\<rceil>" by linarith
    ultimately show ?thesis using False x by simp
  qed
qed

definition rne :: "real \<Rightarrow> int" where
  "rne y =
     (let f = \<lfloor>y\<rfloor> in
      if y - of_int f < 1 / 2 then f
      else if 1 / 2 < y - of_int f then f + 1
      else if even f then f else f + 1)"

definition double_round :: "real \<Rightarrow> real" where
  "double_round x =
     (if x = 0 then 0
      else (let e = max (binade \<bar>x\<bar> - 52) (- 1074)
            in of_int (rne (x / power_int 2 e)) * power_int 2 e))"


text \<open>\<open>Sys_DoubleTime\<close> with the quotient, the product and the two sums rounded. The
  conversions of \<open>t2\<close> and of the millisecond difference to \<open>double\<close> are exact
  (32-bit values). Where no result is rounded, it agrees with \<open>Sys_DoubleTime\<close>
  (lemma \<open>Sys_DoubleTime_rounded_exact\<close>).\<close>

definition Sys_DoubleTime_rounded :: "winapi \<Rightarrow> timers \<Rightarrow> real \<times> timers" where
  "Sys_DoubleTime_rounded api s =
     (if timer_fallback s then
        (let now = timeGetTime api in
         if now < timer_fallback_start s
         then (double_round
                 (real (unat (now + (LONG_MAX - timer_fallback_start s))) / 1000), s)
         else (double_round (real (unat (now - timer_fallback_start s)) / 1000), s))
      else
        (let temp = shifted_count (timer_lowshift s) (QueryPerformanceCounter api) in
         if temp \<le> timer_oldtime s \<and> timer_oldtime s - temp < 0x10000000
         then (curtime s, s\<lparr>timer_oldtime := temp\<rparr>)
         else
           (let t2 = temp - timer_oldtime s;
                time = double_round (real (unat t2) * timer_pfreq s);
                s1 = s\<lparr>timer_oldtime := temp, curtime := double_round (curtime s + time)\<rparr>;
                s2 = (if curtime s1 = lastcurtime s1
                      then (let s3 = s1\<lparr>sametimecount := sametimecount s1 + 1\<rparr> in
                            if sametimecount s3 > 100000
                            then s3\<lparr>curtime := double_round (curtime s3 + 1),
                                    sametimecount := 0\<rparr>
                            else s3)
                      else s1\<lparr>sametimecount := 0\<rparr>);
                s4 = s2\<lparr>lastcurtime := curtime s2\<rparr>
            in (curtime s4, s4))))"

fun Sys_DoubleTime_rounded_calls :: "winapi list \<Rightarrow> timers \<Rightarrow> real list \<times> timers" where
  "Sys_DoubleTime_rounded_calls [] s = ([], s)"
| "Sys_DoubleTime_rounded_calls (api # apis) s =
     (fst (Sys_DoubleTime_rounded api s) #
        fst (Sys_DoubleTime_rounded_calls apis (snd (Sys_DoubleTime_rounded api s))),
      snd (Sys_DoubleTime_rounded_calls apis (snd (Sys_DoubleTime_rounded api s))))"


subsection \<open>\<open>Sys_InitTimers\<close> of sys_win.c\<close>

text \<open>
  \<open>while (highpart || (lowpart > 2000000.0)) {
       timer_lowshift++;
       lowpart >>= 1;
       lowpart |= (highpart & 1) << 31;
       highpart >>= 1;
   }\<close>

  The loop carries \<open>lowpart\<close>, \<open>highpart\<close> and \<open>timer_lowshift\<close>. The comparison
  with \<open>2000000.0\<close> is made on the \<open>double\<close> value of \<open>lowpart\<close>.
\<close>

function Sys_InitTimers_loop :: "u32 \<Rightarrow> u32 \<Rightarrow> nat \<Rightarrow> u32 \<times> u32 \<times> nat" where
  "Sys_InitTimers_loop lowpart highpart lowshift =
     (if highpart \<noteq> 0 \<or> real (unat lowpart) > 2000000
      then Sys_InitTimers_loop
             (drop_bit 1 lowpart OR push_bit 31 (highpart AND 1))
             (drop_bit 1 highpart)
             (lowshift + 1)
      else (lowpart, highpart, lowshift))"
  by pat_completeness auto

termination Sys_InitTimers_loop
proof (relation "measures [\<lambda>(lo, hi, n). unat hi, \<lambda>(lo, hi, n). unat lo]", goal_cases)
  case 1
  show ?case by simp
next
  case (2 lowpart highpart lowshift)
  have halves: "unat (drop_bit 1 w) < unat w" if "w \<noteq> 0" for w :: u32
  proof -
    have "unat (drop_bit 1 w) = unat w div 2"
      unfolding drop_bit_eq_div by (simp add: unat_div)
    with that unat_gt_0 [of w] show ?thesis by simp
  qed
  show ?case
  proof (cases "highpart = 0")
    case True
    with 2 have "lowpart \<noteq> 0" by auto
    from halves [OF this] True show ?thesis by simp
  next
    case False
    from halves [OF this] show ?thesis by simp
  qed
qed

text \<open>
  \<open>Sys_InitTimers\<close>. When \<open>QueryPerformanceFrequency\<close> fails the routine prints a
  warning (not modelled), selects the fallback and records \<open>timeGetTime()\<close>.
  Otherwise it scales the frequency, sets \<open>timer_pfreq = 1.0 / (double)lowpart\<close>
  and takes the first sample of the counter. For a frequency of 0 the C quotient
  is an infinity, which the model does not have: a successful
  \<open>QueryPerformanceFrequency\<close> reports a nonzero frequency.
\<close>

definition Sys_InitTimers :: "winapi \<Rightarrow> timers \<Rightarrow> timers" where
  "Sys_InitTimers api s =
     (case QueryPerformanceFrequency api of
        None \<Rightarrow> s\<lparr>timer_fallback := True, timer_fallback_start := timeGetTime api\<rparr>
      | Some freq \<Rightarrow>
          (case Sys_InitTimers_loop (LowPart freq) (HighPart freq) 0 of
             (lowpart, highpart, lowshift) \<Rightarrow>
               s\<lparr>timer_lowshift := lowshift,
                 timer_pfreq := 1 / real (unat lowpart),
                 timer_oldtime := shifted_count lowshift (QueryPerformanceCounter api)\<rparr>))"

subsection \<open>\<open>Sys_DoubleTime\<close> of sys_libretro.c\<close>

text \<open>The \<open>struct timeval\<close> filled in by \<open>gettimeofday\<close>. Both fields are C
  \<open>long\<close>s (\<open>time_t\<close>, \<open>suseconds_t\<close>); the model keeps them as integers.\<close>

record timeval =
  tv_sec :: int
  tv_usec :: int

text \<open>\<open>secbase = tp.tv_sec\<close> stores a \<open>time_t\<close> in the \<open>static int secbase\<close>:
  a value that fits 32 bits is kept, any other is reduced modulo \<open>2^32\<close> into
  the range of \<open>int\<close>.\<close>

definition int_of_time_t :: "int \<Rightarrow> int" where
  "int_of_time_t t = (t + 2 ^ 31) mod 2 ^ 32 - 2 ^ 31"

text \<open>The libretro clock: the only static is \<open>secbase\<close>.\<close>

definition Sys_DoubleTime_libretro :: "timeval \<Rightarrow> int \<Rightarrow> real \<times> int" where
  "Sys_DoubleTime_libretro tp secbase =
     (if secbase = 0
      then (real_of_int (tv_usec tp) / 1000000, int_of_time_t (tv_sec tp))
      else (real_of_int (tv_sec tp - secbase) + real_of_int (tv_usec tp) / 1000000,
            secbase))"

fun Sys_DoubleTime_libretro_calls :: "timeval list \<Rightarrow> int \<Rightarrow> real list \<times> int" where
  "Sys_DoubleTime_libretro_calls [] secbase = ([], secbase)"
| "Sys_DoubleTime_libretro_calls (tp # tps) secbase =
     (fst (Sys_DoubleTime_libretro tp secbase) #
        fst (Sys_DoubleTime_libretro_calls tps (snd (Sys_DoubleTime_libretro tp secbase))),
      snd (Sys_DoubleTime_libretro_calls tps (snd (Sys_DoubleTime_libretro tp secbase))))"

subsection \<open>Example calls\<close>

text \<open>A call at which the performance counter reads \<open>c\<close> (high half zero), a call
  at which \<open>timeGetTime\<close> returns \<open>ms\<close>, a start-up at which the performance
  counter has frequency \<open>f\<close> and reads \<open>c\<close>, and a start-up without a performance
  counter at millisecond \<open>ms\<close>.\<close>

definition counter_reads :: "u32 \<Rightarrow> winapi" where
  "counter_reads c =
     \<lparr>QueryPerformanceFrequency = None,
      QueryPerformanceCounter = \<lparr>LowPart = c, HighPart = 0\<rparr>,
      timeGetTime = 0\<rparr>"

definition millis_reads :: "u32 \<Rightarrow> winapi" where
  "millis_reads ms =
     \<lparr>QueryPerformanceFrequency = None,
      QueryPerformanceCounter = \<lparr>LowPart = 0, HighPart = 0\<rparr>,
      timeGetTime = ms\<rparr>"

definition startup_with_counter :: "u32 \<Rightarrow> u32 \<Rightarrow> winapi" where
  "startup_with_counter f c =
     \<lparr>QueryPerformanceFrequency = Some \<lparr>LowPart = f, HighPart = 0\<rparr>,
      QueryPerformanceCounter = \<lparr>LowPart = c, HighPart = 0\<rparr>,
      timeGetTime = 0\<rparr>"

definition startup_without_counter :: "u32 \<Rightarrow> winapi" where
  "startup_without_counter ms =
     \<lparr>QueryPerformanceFrequency = None,
      QueryPerformanceCounter = \<lparr>LowPart = 0, HighPart = 0\<rparr>,
      timeGetTime = ms\<rparr>"

text \<open>The statics after a start-up with a counter of frequency \<open>2^21\<close> (one shift,
  \<open>timer_pfreq = 2^-20\<close>) reading 0, once \<open>curtime\<close> has reached \<open>t\<close>.\<close>

definition clock_at :: "real \<Rightarrow> timers" where
  "clock_at t =
     initial_timers\<lparr>timer_lowshift := 1, timer_pfreq := 1 / 1048576,
       curtime := t, lastcurtime := t\<rparr>"

section \<open>Properties\<close>

text \<open>The equations of the two loops are unfolded by hand, and \<open>real (unat w)\<close> is
  kept in this form.\<close>

declare Sys_InitTimers_loop.simps [simp del]
declare binade.simps [simp del]
declare of_nat_unat [simp del]

subsection \<open>The three ways through \<open>Sys_DoubleTime\<close>\<close>

lemma Sys_DoubleTime_fallback:
  assumes "timer_fallback s"
  shows "Sys_DoubleTime api s =
     (if timeGetTime api < timer_fallback_start s
      then real (unat (timeGetTime api + (LONG_MAX - timer_fallback_start s))) / 1000
      else real (unat (timeGetTime api - timer_fallback_start s)) / 1000, s)"
  using assms by (simp add: Sys_DoubleTime_def Let_def)

lemma Sys_DoubleTime_guard:
  assumes "\<not> timer_fallback s"
    and "shifted_count (timer_lowshift s) (QueryPerformanceCounter api) \<le> timer_oldtime s"
    and "timer_oldtime s - shifted_count (timer_lowshift s) (QueryPerformanceCounter api)
           < 0x10000000"
  shows "Sys_DoubleTime api s =
     (curtime s,
      s\<lparr>timer_oldtime := shifted_count (timer_lowshift s) (QueryPerformanceCounter api)\<rparr>)"
  using assms by (simp add: Sys_DoubleTime_def Let_def)

lemma Sys_DoubleTime_advance:
  assumes "\<not> timer_fallback s"
    and "\<not> (shifted_count (timer_lowshift s) (QueryPerformanceCounter api) \<le> timer_oldtime s
           \<and> timer_oldtime s - shifted_count (timer_lowshift s) (QueryPerformanceCounter api)
                < 0x10000000)"
    and "temp = shifted_count (timer_lowshift s) (QueryPerformanceCounter api)"
    and "c = curtime s + real (unat (temp - timer_oldtime s)) * timer_pfreq s"
  shows "Sys_DoubleTime api s =
     (if c = lastcurtime s
      then if sametimecount s + 1 > 100000
           then (c + 1, s\<lparr>timer_oldtime := temp, curtime := c + 1, lastcurtime := c + 1,
                          sametimecount := 0\<rparr>)
           else (c, s\<lparr>timer_oldtime := temp, curtime := c, lastcurtime := c,
                      sametimecount := sametimecount s + 1\<rparr>)
      else (c, s\<lparr>timer_oldtime := temp, curtime := c, lastcurtime := c,
                 sametimecount := 0\<rparr>))"
  using assms by (auto simp: Sys_DoubleTime_def Let_def)

lemma Sys_DoubleTime_zero_delta:
  assumes "\<not> timer_fallback s"
    and "shifted_count (timer_lowshift s) (QueryPerformanceCounter api) = timer_oldtime s"
  shows "Sys_DoubleTime api s = (curtime s, s)"
  using assms by (simp add: Sys_DoubleTime_def Let_def)

lemma Sys_DoubleTime_primary_frame:
  assumes "\<not> timer_fallback s"
  shows "timer_oldtime (snd (Sys_DoubleTime api s)) =
           shifted_count (timer_lowshift s) (QueryPerformanceCounter api)"
    and "fst (Sys_DoubleTime api s) = curtime (snd (Sys_DoubleTime api s))"
    and "timer_fallback (snd (Sys_DoubleTime api s)) = timer_fallback s"
    and "timer_lowshift (snd (Sys_DoubleTime api s)) = timer_lowshift s"
    and "timer_pfreq (snd (Sys_DoubleTime api s)) = timer_pfreq s"
    and "timer_fallback_start (snd (Sys_DoubleTime api s)) = timer_fallback_start s"
  using assms by (simp_all add: Sys_DoubleTime_def Let_def)

lemma Sys_DoubleTime_lowshift:
  "timer_lowshift (snd (Sys_DoubleTime api s)) = timer_lowshift s"
  by (simp add: Sys_DoubleTime_def Let_def)

lemma one_unit_lower:
  fixes x :: u32
  assumes "x \<noteq> 0"
  shows "x - 1 \<le> x" and "x - (x - 1) < 0x10000000"
  using assms by (simp_all add: word_le_nat_alt unat_minus_one)


subsection \<open>Fallback mode leaves the accumulation state alone\<close>

text \<open>[C7] In fallback mode \<open>Sys_DoubleTime\<close> returns from inside the first
  \<open>if\<close>: the statics \<open>timer_oldtime\<close>, \<open>curtime\<close>, \<open>lastcurtime\<close> and
  \<open>sametimecount\<close> hold the same values after the call as before it (no static
  changes at all).\<close>

theorem fallback_leaves_accumulation_state:
  assumes "timer_fallback s"
  shows "timer_oldtime (snd (Sys_DoubleTime api s)) = timer_oldtime s
       \<and> curtime (snd (Sys_DoubleTime api s)) = curtime s
       \<and> lastcurtime (snd (Sys_DoubleTime api s)) = lastcurtime s
       \<and> sametimecount (snd (Sys_DoubleTime api s)) = sametimecount s
       \<and> snd (Sys_DoubleTime api s) = s"
  using assms by (simp add: Sys_DoubleTime_def Let_def)

theorem fallback_leaves_accumulation_state_witness:
  "timer_fallback (initial_timers\<lparr>timer_fallback := True, timer_fallback_start := 100,
       timer_oldtime := 7, curtime := 3, lastcurtime := 2, sametimecount := 5\<rparr>)
   \<and> snd (Sys_DoubleTime (millis_reads 350)
        (initial_timers\<lparr>timer_fallback := True, timer_fallback_start := 100,
           timer_oldtime := 7, curtime := 3, lastcurtime := 2, sametimecount := 5\<rparr>))
     = initial_timers\<lparr>timer_fallback := True, timer_fallback_start := 100,
           timer_oldtime := 7, curtime := 3, lastcurtime := 2, sametimecount := 5\<rparr>
   \<and> fst (Sys_DoubleTime (millis_reads 350)
        (initial_timers\<lparr>timer_fallback := True, timer_fallback_start := 100,
           timer_oldtime := 7, curtime := 3, lastcurtime := 2, sametimecount := 5\<rparr>))
     = 1 / 4"
  using fallback_leaves_accumulation_state
    [of "initial_timers\<lparr>timer_fallback := True, timer_fallback_start := 100,
           timer_oldtime := 7, curtime := 3, lastcurtime := 2, sametimecount := 5\<rparr>"
        "millis_reads 350"]
  by (simp add: Sys_DoubleTime_def millis_reads_def initial_timers_def)

subsection \<open>The backward guard\<close>

text \<open>[C3] On the primary path, when the shifted reading is at most the stored
  reading and less than \<open>0x10000000\<close> below it, \<open>Sys_DoubleTime\<close> stores the
  reading in \<open>timer_oldtime\<close>, changes nothing else and returns \<open>curtime\<close> as it
  was. In particular, a call whose reading is one unit below the (nonzero) reading
  of the call before it returns the same value as that call.\<close>

theorem backward_guard_adds_no_time:
  assumes "\<not> timer_fallback s"
  shows "(shifted_count (timer_lowshift s) (QueryPerformanceCounter api) \<le> timer_oldtime s
          \<and> timer_oldtime s - shifted_count (timer_lowshift s) (QueryPerformanceCounter api)
              < 0x10000000
          \<longrightarrow> Sys_DoubleTime api s =
                (curtime s,
                 s\<lparr>timer_oldtime :=
                     shifted_count (timer_lowshift s) (QueryPerformanceCounter api)\<rparr>))
       \<and> (shifted_count (timer_lowshift s) (QueryPerformanceCounter api) \<noteq> 0
          \<and> shifted_count (timer_lowshift s) (QueryPerformanceCounter api') =
              shifted_count (timer_lowshift s) (QueryPerformanceCounter api) - 1
          \<longrightarrow> fst (Sys_DoubleTime api' (snd (Sys_DoubleTime api s))) =
                fst (Sys_DoubleTime api s))"
proof (intro conjI impI)
  assume "shifted_count (timer_lowshift s) (QueryPerformanceCounter api) \<le> timer_oldtime s
          \<and> timer_oldtime s - shifted_count (timer_lowshift s) (QueryPerformanceCounter api)
              < 0x10000000"
  with assms show "Sys_DoubleTime api s =
                (curtime s,
                 s\<lparr>timer_oldtime :=
                     shifted_count (timer_lowshift s) (QueryPerformanceCounter api)\<rparr>)"
    by (simp add: Sys_DoubleTime_guard)
next
  let ?temp = "shifted_count (timer_lowshift s) (QueryPerformanceCounter api)"
  let ?s' = "snd (Sys_DoubleTime api s)"
  assume a: "?temp \<noteq> 0
          \<and> shifted_count (timer_lowshift s) (QueryPerformanceCounter api') = ?temp - 1"
  note fr = Sys_DoubleTime_primary_frame [OF assms, of api]
  from fr(3) assms have nf: "\<not> timer_fallback ?s'" by simp
  from fr(1,4) a
  have t': "shifted_count (timer_lowshift ?s') (QueryPerformanceCounter api') =
              timer_oldtime ?s' - 1"
    and nz: "timer_oldtime ?s' \<noteq> 0"
    by simp_all
  from one_unit_lower [OF nz] t'
  have "Sys_DoubleTime api' ?s' =
     (curtime ?s',
      ?s'\<lparr>timer_oldtime :=
            shifted_count (timer_lowshift ?s') (QueryPerformanceCounter api')\<rparr>)"
    by (intro Sys_DoubleTime_guard [OF nf]) simp_all
  with fr(2) show "fst (Sys_DoubleTime api' ?s') = fst (Sys_DoubleTime api s)"
    by simp
qed

theorem backward_guard_adds_no_time_witness:
  "\<not> timer_fallback (initial_timers\<lparr>timer_pfreq := 1 / 1000000, timer_oldtime := 10,
        curtime := 5 / 2, lastcurtime := 5 / 2\<rparr>)
   \<and> Sys_DoubleTime (counter_reads 9)
        (initial_timers\<lparr>timer_pfreq := 1 / 1000000, timer_oldtime := 10,
           curtime := 5 / 2, lastcurtime := 5 / 2\<rparr>)
     = (5 / 2, initial_timers\<lparr>timer_pfreq := 1 / 1000000, timer_oldtime := 9,
           curtime := 5 / 2, lastcurtime := 5 / 2\<rparr>)
   \<and> fst (Sys_DoubleTime (counter_reads 8) (snd (Sys_DoubleTime (counter_reads 9)
        (initial_timers\<lparr>timer_pfreq := 1 / 1000000, timer_oldtime := 10,
           curtime := 5 / 2, lastcurtime := 5 / 2\<rparr>))))
     = 5 / 2"
  using backward_guard_adds_no_time
    [of "initial_timers\<lparr>timer_pfreq := 1 / 1000000, timer_oldtime := 10,
           curtime := 5 / 2, lastcurtime := 5 / 2\<rparr>"
        "counter_reads 9" "counter_reads 8"]
  by (simp add: Sys_DoubleTime_def shifted_count_def counter_reads_def initial_timers_def)

subsection \<open>A reading that has wrapped\<close>




subsection \<open>The stall counter\<close>

lemma Sys_DoubleTime_sametimecount:
  assumes "0 \<le> sametimecount s" and "sametimecount s \<le> 100000"
  shows "0 \<le> sametimecount (snd (Sys_DoubleTime api s))
       \<and> sametimecount (snd (Sys_DoubleTime api s)) \<le> 100000"
  using assms by (simp add: Sys_DoubleTime_def Let_def)

lemma Sys_DoubleTime_calls_sametimecount:
  assumes "0 \<le> sametimecount s" and "sametimecount s \<le> 100000"
  shows "0 \<le> sametimecount (snd (Sys_DoubleTime_calls apis s))
       \<and> sametimecount (snd (Sys_DoubleTime_calls apis s)) \<le> 100000"
  using assms
proof (induction apis arbitrary: s)
  case Nil
  then show ?case by simp
next
  case (Cons api apis)
  from Sys_DoubleTime_sametimecount [OF Cons.prems, of api] Cons.IH
  show ?case by simp
qed

lemma Sys_InitTimers_frame:
  "curtime (Sys_InitTimers api s) = curtime s"
  "lastcurtime (Sys_InitTimers api s) = lastcurtime s"
  "sametimecount (Sys_InitTimers api s) = sametimecount s"
  by (simp_all add: Sys_InitTimers_def split: option.splits prod.splits)

lemma Sys_DoubleTime_lastcurtime:
  assumes "lastcurtime s = curtime s"
  shows "lastcurtime (snd (Sys_DoubleTime api s)) = curtime (snd (Sys_DoubleTime api s))"
  using assms by (simp add: Sys_DoubleTime_def Let_def)

lemma Sys_DoubleTime_calls_lastcurtime:
  assumes "lastcurtime s = curtime s"
  shows "lastcurtime (snd (Sys_DoubleTime_calls apis s)) = curtime (snd (Sys_DoubleTime_calls apis s))"
  using assms
proof (induction apis arbitrary: s)
  case Nil
  then show ?case by simp
next
  case (Cons api apis)
  from Cons.IH [OF Sys_DoubleTime_lastcurtime [OF Cons.prems, of api]]
  show ?case by simp
qed

lemma Sys_DoubleTime_change_resets:
  assumes "\<not> timer_fallback s" and "lastcurtime s = curtime s"
    and "curtime (snd (Sys_DoubleTime api s)) \<noteq> curtime s"
  shows "sametimecount (snd (Sys_DoubleTime api s)) = 0"
proof -
  let ?temp = "shifted_count (timer_lowshift s) (QueryPerformanceCounter api)"
  show ?thesis
  proof (cases "?temp \<le> timer_oldtime s \<and> timer_oldtime s - ?temp < 0x10000000")
    case True
    with assms(1,3) show ?thesis by (simp add: Sys_DoubleTime_guard)
  next
    case False
    from Sys_DoubleTime_advance [OF assms(1) False refl refl] assms(2,3)
    show ?thesis by (simp split: if_splits)
  qed
qed

text \<open>[C9] After every call of \<open>Sys_DoubleTime\<close> the stall counter
  \<open>sametimecount\<close> lies between 0 and 100000: this holds after any sequence of
  calls that starts with the counter in that range, and so after any sequence of
  calls that follows \<open>Sys_InitTimers\<close> on the zero-initialised statics. A call on
  the primary path that changes \<open>curtime\<close> leaves the counter at zero (in the
  states where \<open>lastcurtime\<close> equals \<open>curtime\<close>, which are the ones that any
  sequence of calls after \<open>Sys_InitTimers\<close> reaches).\<close>

theorem sametimecount_stays_in_range:
  "(0 \<le> sametimecount s \<and> sametimecount s \<le> 100000
      \<longrightarrow> 0 \<le> sametimecount (snd (Sys_DoubleTime_calls apis s))
        \<and> sametimecount (snd (Sys_DoubleTime_calls apis s)) \<le> 100000)
   \<and> (\<not> timer_fallback s \<and> lastcurtime s = curtime s
        \<and> curtime (snd (Sys_DoubleTime api s)) \<noteq> curtime s
      \<longrightarrow> sametimecount (snd (Sys_DoubleTime api s)) = 0)
   \<and> 0 \<le> sametimecount (snd (Sys_DoubleTime_calls apis' (Sys_InitTimers api0 initial_timers)))
   \<and> sametimecount (snd (Sys_DoubleTime_calls apis' (Sys_InitTimers api0 initial_timers)))
       \<le> 100000
   \<and> lastcurtime (snd (Sys_DoubleTime_calls apis' (Sys_InitTimers api0 initial_timers)))
       = curtime (snd (Sys_DoubleTime_calls apis' (Sys_InitTimers api0 initial_timers)))"
proof -
  have c0: "sametimecount (Sys_InitTimers api0 initial_timers) = 0"
    and l0: "lastcurtime (Sys_InitTimers api0 initial_timers)
              = curtime (Sys_InitTimers api0 initial_timers)"
    by (simp_all add: Sys_InitTimers_frame initial_timers_def)
  from c0 have "0 \<le> sametimecount (Sys_InitTimers api0 initial_timers)"
    and "sametimecount (Sys_InitTimers api0 initial_timers) \<le> 100000"
    by simp_all
  from Sys_DoubleTime_calls_sametimecount [OF this, of apis']
    Sys_DoubleTime_calls_lastcurtime [OF l0, of apis']
    Sys_DoubleTime_calls_sametimecount [of s apis]
    Sys_DoubleTime_change_resets [of s api]
  show ?thesis by simp
qed

theorem sametimecount_stays_in_range_witness:
  "(0::int) \<le> 100000 \<and> (100000::int) \<le> 100000
   \<and> sametimecount (snd (Sys_DoubleTime_calls [counter_reads 7, counter_reads 9]
        (initial_timers\<lparr>timer_oldtime := 5, curtime := 3, lastcurtime := 3,
           sametimecount := 100000\<rparr>))) = 1
   \<and> curtime (snd (Sys_DoubleTime (counter_reads 7)
        (initial_timers\<lparr>timer_oldtime := 5, curtime := 3, lastcurtime := 3,
           sametimecount := 100000\<rparr>))) = 4
   \<and> sametimecount (snd (Sys_DoubleTime (counter_reads 7)
        (initial_timers\<lparr>timer_oldtime := 5, curtime := 3, lastcurtime := 3,
           sametimecount := 100000\<rparr>))) = 0"
  using sametimecount_stays_in_range
    [of "initial_timers\<lparr>timer_oldtime := 5, curtime := 3, lastcurtime := 3,
           sametimecount := 100000\<rparr>"
        "[counter_reads 7, counter_reads 9]" "counter_reads 7" "[]"
        "startup_without_counter 0"]
  by (simp add: Sys_DoubleTime_def shifted_count_def counter_reads_def initial_timers_def)

lemma Sys_DoubleTime_calls_zero_delta:
  assumes "\<not> timer_fallback s"
    and "shifted_count (timer_lowshift s) (QueryPerformanceCounter api) = timer_oldtime s"
  shows "Sys_DoubleTime_calls (replicate n api) s = (replicate n (curtime s), s)"
  using assms by (induction n) (simp_all add: Sys_DoubleTime_zero_delta)

text \<open>[C2] The claim fails on a zero-delta sequence. After a start-up with a
  counter of frequency \<open>2^20\<close> reading 5 and one call at reading 1048581 (which returns 1), the
  next 100002 calls at the same reading all return 1, and the stall counter is
  still 0: no call returns the frozen value plus 1.\<close>

theorem zero_delta_sequence_never_jumps:
  "fst (Sys_DoubleTime (counter_reads 1048581)
          (Sys_InitTimers (startup_with_counter 1048576 5) initial_timers)) = 1
   \<and> Sys_DoubleTime_calls (replicate 100002 (counter_reads 1048581))
        (snd (Sys_DoubleTime (counter_reads 1048581)
               (Sys_InitTimers (startup_with_counter 1048576 5) initial_timers)))
     = (replicate 100002 1,
        snd (Sys_DoubleTime (counter_reads 1048581)
               (Sys_InitTimers (startup_with_counter 1048576 5) initial_timers)))
   \<and> sametimecount (snd (Sys_DoubleTime (counter_reads 1048581)
               (Sys_InitTimers (startup_with_counter 1048576 5) initial_timers))) = 0"
proof -
  have init: "Sys_InitTimers (startup_with_counter 1048576 5) initial_timers =
      initial_timers\<lparr>timer_pfreq := 1 / 1048576, timer_oldtime := 5\<rparr>"
    by (subst Sys_InitTimers_def, subst Sys_InitTimers_loop.simps)
       (simp add: startup_with_counter_def shifted_count_def initial_timers_def)
  have first: "Sys_DoubleTime (counter_reads 1048581)
        (initial_timers\<lparr>timer_pfreq := 1 / 1048576, timer_oldtime := 5\<rparr>) =
      (1, initial_timers\<lparr>timer_pfreq := 1 / 1048576, timer_oldtime := 1048581,
             curtime := 1, lastcurtime := 1\<rparr>)"
    by (simp add: Sys_DoubleTime_def shifted_count_def counter_reads_def initial_timers_def)
  have "Sys_DoubleTime_calls (replicate 100002 (counter_reads 1048581))
          (initial_timers\<lparr>timer_pfreq := 1 / 1048576, timer_oldtime := 1048581,
             curtime := 1, lastcurtime := 1\<rparr>)
        = (replicate 100002
             (curtime (initial_timers\<lparr>timer_pfreq := 1 / 1048576, timer_oldtime := 1048581,
                curtime := 1, lastcurtime := 1\<rparr>)),
           initial_timers\<lparr>timer_pfreq := 1 / 1048576, timer_oldtime := 1048581,
             curtime := 1, lastcurtime := 1\<rparr>)"
    by (rule Sys_DoubleTime_calls_zero_delta)
       (simp_all add: shifted_count_def counter_reads_def initial_timers_def)
  with init first show ?thesis
    by (simp add: initial_timers_def)
qed

subsection \<open>The stall breaker with rounded doubles\<close>

lemma rne_of_int [simp]: "rne (of_int m) = m"
  by (simp add: rne_def)

lemma binade_bounds:
  assumes "0 < x"
  shows "power_int 2 (binade x) \<le> x \<and> x < power_int 2 (binade x + 1)"
  using assms
proof (induction x rule: binade.induct)
  case (1 x)
  show ?case
  proof (cases "2 \<le> x")
    case True
    then have b: "binade x = binade (x / 2) + 1"
      by (subst binade.simps) simp
    from True "1.prems" have "0 < x / 2" by simp
    from "1.IH"(1) [OF True this]
    have "power_int 2 (binade (x / 2)) \<le> x / 2" "x / 2 < power_int 2 (binade (x / 2) + 1)"
      by simp_all
    then show ?thesis
      unfolding b by (simp add: power_int_add field_simps)
  next
    case False
    show ?thesis
    proof (cases "x < 1")
      case True
      with "1.prems" False have b: "binade x = binade (x * 2) - 1"
        by (subst binade.simps) simp
      from "1.prems" have "0 < x * 2" by simp
      from "1.IH"(2) [OF False _ this] "1.prems" True
      have "power_int 2 (binade (x * 2)) \<le> x * 2" "x * 2 < power_int 2 (binade (x * 2) + 1)"
        by simp_all
      then show ?thesis
        unfolding b by (simp add: power_int_diff power_int_add field_simps)
    next
      case ge: False
      with False have "binade x = 0"
        by (subst binade.simps) simp
      with False ge show ?thesis by simp
    qed
  qed
qed

lemma binade_eqI:
  assumes "power_int 2 n \<le> x" and "x < power_int 2 (n + 1)"
  shows "binade x = n"
proof -
  have "0 < power_int (2::real) n" by simp
  with assms(1) have pos: "0 < x" by linarith
  note b = binade_bounds [OF pos]
  have "\<not> binade x < n"
  proof
    assume "binade x < n"
    then have "binade x + 1 \<le> n" by simp
    then have "power_int (2::real) (binade x + 1) \<le> power_int 2 n"
      by (intro power_int_increasing) simp_all
    with b assms(1) show False by linarith
  qed
  moreover have "\<not> n < binade x"
  proof
    assume "n < binade x"
    then have "n + 1 \<le> binade x" by simp
    then have "power_int (2::real) (n + 1) \<le> power_int 2 (binade x)"
      by (intro power_int_increasing) simp_all
    with b assms(2) show False by linarith
  qed
  ultimately show ?thesis by simp
qed

lemma binade_less:
  assumes "0 < x" and "x < power_int 2 n"
  shows "binade x < n"
proof (rule ccontr)
  assume "\<not> binade x < n"
  then have "n \<le> binade x" by simp
  then have "power_int (2::real) n \<le> power_int 2 (binade x)"
    by (intro power_int_increasing) simp_all
  with binade_bounds [OF assms(1)] assms(2) show False by linarith
qed

lemma double_round_representable:
  assumes "\<bar>m\<bar> < 2 ^ 53" and "- 1074 \<le> e"
  shows "double_round (of_int m * power_int 2 e) = of_int m * power_int 2 e"
proof (cases "m = 0")
  case True
  then show ?thesis by (simp add: double_round_def)
next
  case False
  let ?x = "of_int m * power_int 2 e :: real"
  define E where "E = max (binade \<bar>?x\<bar> - 52) (- 1074)"
  have ax: "\<bar>?x\<bar> = of_int \<bar>m\<bar> * power_int 2 e"
    by (simp add: abs_mult)
  from False have pos: "0 < \<bar>?x\<bar>" by simp
  from assms(1) have "real_of_int \<bar>m\<bar> < 2 ^ 53"
    by (metis of_int_less_iff of_int_numeral of_int_power)
  then have "of_int \<bar>m\<bar> * power_int 2 e < (2::real) ^ 53 * power_int 2 e"
    by (intro mult_strict_right_mono) simp_all
  also have "\<dots> = power_int 2 (53 + e)"
    by (simp add: power_int_add)
  finally have "\<bar>?x\<bar> < power_int 2 (53 + e)"
    unfolding ax .
  from binade_less [OF pos this] assms(2) have Ee: "E \<le> e"
    by (simp add: E_def)
  then obtain k where k: "e = E + int k"
    by (metis zle_iff_zadd)
  have "?x / power_int 2 E = of_int m * 2 ^ k"
    by (simp add: k power_int_add)
  also have "\<dots> = of_int (m * 2 ^ k)" by simp
  finally have "rne (?x / power_int 2 E) = m * 2 ^ k"
    by (simp only: rne_of_int)
  then have "of_int (rne (?x / power_int 2 E)) * power_int 2 E = ?x"
    by (simp add: k power_int_add)
  with False show ?thesis
    by (simp add: double_round_def E_def Let_def)
qed

lemma double_round_int:
  assumes "\<bar>m\<bar> < 2 ^ 53"
  shows "double_round (of_int m) = of_int m"
  using double_round_representable [OF assms, of 0] by simp

lemma double_round_nat:
  assumes "n < 2 ^ 53"
  shows "double_round (real n) = real n"
proof -
  from assms have "\<bar>int n\<bar> < 2 ^ 53"
    by (metis abs_of_nat of_nat_less_iff of_nat_numeral of_nat_power)
  from double_round_int [OF this] show ?thesis by simp
qed

lemma Sys_DoubleTime_rounded_advance:
  assumes "\<not> timer_fallback s"
    and "\<not> (shifted_count (timer_lowshift s) (QueryPerformanceCounter api) \<le> timer_oldtime s
           \<and> timer_oldtime s - shifted_count (timer_lowshift s) (QueryPerformanceCounter api)
                < 0x10000000)"
    and "temp = shifted_count (timer_lowshift s) (QueryPerformanceCounter api)"
    and "c = double_round
               (curtime s + double_round (real (unat (temp - timer_oldtime s)) * timer_pfreq s))"
  shows "Sys_DoubleTime_rounded api s =
     (if c = lastcurtime s
      then if sametimecount s + 1 > 100000
           then (double_round (c + 1),
                 s\<lparr>timer_oldtime := temp, curtime := double_round (c + 1),
                   lastcurtime := double_round (c + 1), sametimecount := 0\<rparr>)
           else (c, s\<lparr>timer_oldtime := temp, curtime := c, lastcurtime := c,
                      sametimecount := sametimecount s + 1\<rparr>)
      else (c, s\<lparr>timer_oldtime := temp, curtime := c, lastcurtime := c,
                 sametimecount := 0\<rparr>))"
  using assms by (auto simp: Sys_DoubleTime_rounded_def Let_def)

lemma Sys_DoubleTime_rounded_zero_delta:
  assumes "\<not> timer_fallback s"
    and "shifted_count (timer_lowshift s) (QueryPerformanceCounter api) = timer_oldtime s"
  shows "Sys_DoubleTime_rounded api s = (curtime s, s)"
  using assms by (simp add: Sys_DoubleTime_rounded_def Let_def)

lemma Sys_DoubleTime_rounded_calls_zero_delta:
  assumes "\<not> timer_fallback s"
    and "shifted_count (timer_lowshift s) (QueryPerformanceCounter api) = timer_oldtime s"
  shows "Sys_DoubleTime_rounded_calls (replicate n api) s = (replicate n (curtime s), s)"
  using assms by (induction n) (simp_all add: Sys_DoubleTime_rounded_zero_delta)

lemma Sys_DoubleTime_rounded_exact:
  assumes "\<not> timer_fallback s"
    and "temp = shifted_count (timer_lowshift s) (QueryPerformanceCounter api)"
    and "time = real (unat (temp - timer_oldtime s)) * timer_pfreq s"
    and "double_round time = time"
    and "double_round (curtime s + time) = curtime s + time"
    and "double_round (curtime s + time + 1) = curtime s + time + 1"
  shows "Sys_DoubleTime_rounded api s = Sys_DoubleTime api s"
proof (cases "temp \<le> timer_oldtime s \<and> timer_oldtime s - temp < 0x10000000")
  case True
  with assms(1,2) show ?thesis
    by (simp add: Sys_DoubleTime_rounded_def Sys_DoubleTime_def Let_def)
next
  case False
  with assms(2)
  have ng: "\<not> (shifted_count (timer_lowshift s) (QueryPerformanceCounter api) \<le> timer_oldtime s
           \<and> timer_oldtime s - shifted_count (timer_lowshift s) (QueryPerformanceCounter api)
                < 0x10000000)"
    by simp
  from assms(3-5)
  have c: "curtime s + time = double_round
           (curtime s + double_round (real (unat (temp - timer_oldtime s)) * timer_pfreq s))"
    by simp
  from assms(3) have c': "curtime s + time
      = curtime s + real (unat (temp - timer_oldtime s)) * timer_pfreq s"
    by simp
  show ?thesis
    unfolding Sys_DoubleTime_rounded_advance [OF assms(1) ng assms(2) c]
      Sys_DoubleTime_advance [OF assms(1) ng assms(2) c']
    using assms(6) by auto
qed

lemma Sys_InitTimers_2MHz:
  "Sys_InitTimers (startup_with_counter 2097152 0) initial_timers = clock_at 0"
proof -
  have "Sys_InitTimers_loop 2097152 0 0 = (1048576, 0, 1)"
    apply (subst Sys_InitTimers_loop.simps, simp)
    apply (subst Sys_InitTimers_loop.simps, simp)
    done
  then show ?thesis
    by (simp add: Sys_InitTimers_def startup_with_counter_def shifted_count_def
          initial_timers_def clock_at_def)
qed

lemma advancing_pair:
  assumes "j < 2097152"
  shows "Sys_DoubleTime_rounded_calls [counter_reads 0x80000000, counter_reads 0]
           (clock_at (real (4096 * j)))
         = ([real (4096 * j + 1024), real (4096 * (j + 1))], clock_at (real (4096 * (j + 1))))"
proof -
  let ?s = "clock_at (real (4096 * j))"
  let ?s1 = "?s\<lparr>timer_oldtime := 0x40000000, curtime := real (4096 * j + 1024),
                  lastcurtime := real (4096 * j + 1024)\<rparr>"
  from assms have r1: "double_round (real (4096 * j + 1024)) = real (4096 * j + 1024)"
    and r2: "double_round (real (4096 * (j + 1))) = real (4096 * (j + 1))"
    by (intro double_round_nat, simp)+
  have t1: "double_round 1024 = 1024" and t2: "double_round 3072 = 3072"
    using double_round_nat [of 1024] double_round_nat [of 3072] by simp_all
  have first: "Sys_DoubleTime_rounded (counter_reads 0x80000000) ?s
        = (real (4096 * j + 1024), ?s1)"
  proof -
    have c: "real (4096 * j + 1024) = double_round (curtime ?s
          + double_round (real (unat ((0x40000000 :: u32) - timer_oldtime ?s)) * timer_pfreq ?s))"
      using r1 by (simp add: clock_at_def initial_timers_def t1)
    have "Sys_DoubleTime_rounded (counter_reads 0x80000000) ?s =
       (if real (4096 * j + 1024) = lastcurtime ?s
        then if sametimecount ?s + 1 > 100000
           then (double_round (real (4096 * j + 1024) + 1),
                 ?s\<lparr>timer_oldtime := 0x40000000,
                   curtime := double_round (real (4096 * j + 1024) + 1),
                   lastcurtime := double_round (real (4096 * j + 1024) + 1),
                   sametimecount := 0\<rparr>)
           else (real (4096 * j + 1024),
                 ?s\<lparr>timer_oldtime := 0x40000000, curtime := real (4096 * j + 1024),
                   lastcurtime := real (4096 * j + 1024),
                   sametimecount := sametimecount ?s + 1\<rparr>)
        else (real (4096 * j + 1024),
              ?s\<lparr>timer_oldtime := 0x40000000, curtime := real (4096 * j + 1024),
                lastcurtime := real (4096 * j + 1024), sametimecount := 0\<rparr>))"
      by (rule Sys_DoubleTime_rounded_advance [OF _ _ _ c])
         (simp_all add: clock_at_def initial_timers_def counter_reads_def shifted_count_def)
    then show ?thesis
      by (simp add: clock_at_def initial_timers_def)
  qed
  have second: "Sys_DoubleTime_rounded (counter_reads 0) ?s1
        = (real (4096 * (j + 1)), clock_at (real (4096 * (j + 1))))"
  proof -
    have c: "real (4096 * (j + 1)) = double_round (curtime ?s1
          + double_round (real (unat ((0 :: u32) - timer_oldtime ?s1)) * timer_pfreq ?s1))"
      using r2 by (simp add: clock_at_def initial_timers_def t2)
    have "Sys_DoubleTime_rounded (counter_reads 0) ?s1 =
       (if real (4096 * (j + 1)) = lastcurtime ?s1
        then if sametimecount ?s1 + 1 > 100000
           then (double_round (real (4096 * (j + 1)) + 1),
                 ?s1\<lparr>timer_oldtime := 0,
                   curtime := double_round (real (4096 * (j + 1)) + 1),
                   lastcurtime := double_round (real (4096 * (j + 1)) + 1),
                   sametimecount := 0\<rparr>)
           else (real (4096 * (j + 1)),
                 ?s1\<lparr>timer_oldtime := 0, curtime := real (4096 * (j + 1)),
                   lastcurtime := real (4096 * (j + 1)),
                   sametimecount := sametimecount ?s1 + 1\<rparr>)
        else (real (4096 * (j + 1)),
              ?s1\<lparr>timer_oldtime := 0, curtime := real (4096 * (j + 1)),
                lastcurtime := real (4096 * (j + 1)), sametimecount := 0\<rparr>))"
      by (rule Sys_DoubleTime_rounded_advance [OF _ _ _ c])
         (simp_all add: clock_at_def initial_timers_def counter_reads_def shifted_count_def)
    then show ?thesis
      by (simp add: clock_at_def initial_timers_def)
  qed
  from first second show ?thesis by simp
qed

lemma Sys_DoubleTime_rounded_calls_append:
  "Sys_DoubleTime_rounded_calls (xs @ ys) s =
     (fst (Sys_DoubleTime_rounded_calls xs s)
        @ fst (Sys_DoubleTime_rounded_calls ys (snd (Sys_DoubleTime_rounded_calls xs s))),
      snd (Sys_DoubleTime_rounded_calls ys (snd (Sys_DoubleTime_rounded_calls xs s))))"
  by (induction xs arbitrary: s) simp_all

lemma advancing_pairs:
  assumes "j + n \<le> 2097152"
  shows "snd (Sys_DoubleTime_rounded_calls
                (concat (replicate n [counter_reads 0x80000000, counter_reads 0]))
                (clock_at (real (4096 * j))))
         = clock_at (real (4096 * (j + n)))"
  using assms
proof (induction n arbitrary: j)
  case 0
  then show ?case by simp
next
  case (Suc n)
  from Suc.prems have "j < 2097152" and "Suc j + n \<le> 2097152" by simp_all
  from advancing_pair [OF this(1)] Suc.IH [OF this(2)]
  show ?case by simp
qed

lemma halved_reading:
  assumes "n < 2 ^ 31"
  shows "shifted_count 1 \<lparr>LowPart = of_nat (2 * n), HighPart = 0\<rparr> = of_nat n"
proof -
  from assms have "2 * n < 2 ^ 32" by simp
  then have "unat (of_nat (2 * n) :: u32) = 2 * n"
    by (subst unat_of_nat) simp
  then have "unat (drop_bit 1 (of_nat (2 * n) :: u32)) = n"
    unfolding drop_bit_eq_div by (simp add: unat_div)
  moreover from assms have "unat (of_nat n :: u32) = n"
    by (subst unat_of_nat) simp
  ultimately have "drop_bit 1 (of_nat (2 * n) :: u32) = of_nat n"
    by (metis word_unat_eq_iff)
  then show ?thesis by (simp add: shifted_count_def)
qed

lemma next_reading:
  assumes "i + 1 < 2 ^ 31"
  shows "\<not> (of_nat (i + 1) :: u32) \<le> of_nat i"
    and "unat ((of_nat (i + 1) :: u32) - of_nat i) = 1"
proof -
  from assms have a: "unat (of_nat (i + 1) :: u32) = i + 1" and b: "unat (of_nat i :: u32) = i"
    by (subst unat_of_nat, simp)+
  then show "\<not> (of_nat (i + 1) :: u32) \<le> of_nat i"
    by (simp add: word_le_nat_alt)
  show "unat ((of_nat (i + 1) :: u32) - of_nat i) = 1"
    by simp
qed

lemma rounded_back: "double_round (8589934592 + double_round (real 1 * (1 / 1048576))) = 8589934592"
proof -
  have "double_round (1 / 1048576) = 1 / 1048576"
    using double_round_representable [of 1 "- 20"] by simp
  moreover have "double_round (8589934592 + 1 / 1048576) = 8589934592"
  proof -
    have "binade \<bar>8589934592 + 1 / 1048576\<bar> = 33"
      by (rule binade_eqI) simp_all
    then show ?thesis
      by (simp add: double_round_def rne_def)
  qed
  moreover have "real 1 * (1 / 1048576) = 1 / 1048576" by simp
  ultimately show ?thesis by (simp only:)
qed

lemma one_second_later: "double_round (8589934592 + 1) = 8589934593"
  using double_round_nat [of 8589934593] by simp

lemma stalled_call:
  assumes "i + 1 < 2 ^ 31"
  shows "Sys_DoubleTime_rounded (counter_reads (of_nat (2 * (i + 1))))
           (clock_at 8589934592\<lparr>timer_oldtime := of_nat i, sametimecount := c\<rparr>)
         = (if c + 1 > 100000
            then (8589934593,
                  clock_at 8589934593\<lparr>timer_oldtime := of_nat (i + 1), sametimecount := 0\<rparr>)
            else (8589934592,
                  clock_at 8589934592\<lparr>timer_oldtime := of_nat (i + 1),
                    sametimecount := c + 1\<rparr>))"
proof -
  let ?s = "clock_at 8589934592\<lparr>timer_oldtime := of_nat i, sametimecount := c\<rparr>"
  let ?api = "counter_reads (of_nat (2 * (i + 1)))"
  have temp: "of_nat (i + 1) = shifted_count (timer_lowshift ?s) (QueryPerformanceCounter ?api)"
    using halved_reading [OF assms] by (simp add: clock_at_def counter_reads_def)
  have nf: "\<not> timer_fallback ?s"
    by (simp add: clock_at_def initial_timers_def)
  have ng: "\<not> (shifted_count (timer_lowshift ?s) (QueryPerformanceCounter ?api) \<le> timer_oldtime ?s
           \<and> timer_oldtime ?s - shifted_count (timer_lowshift ?s) (QueryPerformanceCounter ?api)
                < 0x10000000)"
    unfolding temp [symmetric] using next_reading(1) [OF assms] by simp
  have c: "8589934592 = double_round (curtime ?s
        + double_round (real (unat ((of_nat (i + 1) :: u32) - timer_oldtime ?s)) * timer_pfreq ?s))"
    using rounded_back next_reading(2) [OF assms] by (simp add: clock_at_def)
  show ?thesis
    unfolding Sys_DoubleTime_rounded_advance [OF nf ng temp c]
    using one_second_later by (simp add: clock_at_def)
qed

lemma stalled_calls:
  assumes "i + n < 2 ^ 31" and "c + int n \<le> 100000"
  shows "Sys_DoubleTime_rounded_calls
           (map (\<lambda>k. counter_reads (of_nat (2 * k))) [i + 1 ..< i + 1 + n])
           (clock_at 8589934592\<lparr>timer_oldtime := of_nat i, sametimecount := c\<rparr>)
         = (replicate n 8589934592,
            clock_at 8589934592\<lparr>timer_oldtime := of_nat (i + n),
              sametimecount := c + int n\<rparr>)"
  using assms
proof (induction n arbitrary: i c)
  case 0
  then show ?case by simp
next
  case (Suc n)
  from Suc.prems have i: "i + 1 < 2 ^ 31" and c: "\<not> c + 1 > 100000" by simp_all
  have upt: "[i + 1 ..< i + 1 + Suc n] = (i + 1) # [(i + 1) + 1 ..< (i + 1) + 1 + n]"
    by (simp add: upt_conv_Cons)
  from Suc.prems have "(i + 1) + n < 2 ^ 31" and "(c + 1) + int n \<le> 100000" by simp_all
  note ih = Suc.IH [OF this]
  show ?case
    unfolding upt using stalled_call [OF i, of c] c ih
    by (simp add: add.assoc)
qed

lemma stalled_run:
  "Sys_DoubleTime_rounded_calls
      (map (\<lambda>k. counter_reads (of_nat (2 * k))) [1 ..< 100002]) (clock_at 8589934592)
   = (replicate 100000 8589934592 @ [8589934593],
      clock_at 8589934593\<lparr>timer_oldtime := 100001\<rparr>)"
proof -
  have s0: "clock_at 8589934592
      = clock_at 8589934592\<lparr>timer_oldtime := of_nat 0, sametimecount := 0\<rparr>"
    by (simp add: clock_at_def initial_timers_def)
  have e: "(100002 :: nat) = Suc 100001" by simp
  have split: "[1 ..< 100002] = [0 + 1 ..< 0 + 1 + 100000] @ [100001 :: nat]"
    by (subst e, subst upt_Suc) simp
  have run: "Sys_DoubleTime_rounded_calls
           (map (\<lambda>k. counter_reads (of_nat (2 * k))) [0 + 1 ..< 0 + 1 + 100000])
           (clock_at 8589934592\<lparr>timer_oldtime := of_nat 0, sametimecount := 0\<rparr>)
         = (replicate 100000 8589934592,
            clock_at 8589934592\<lparr>timer_oldtime := of_nat (0 + 100000),
              sametimecount := 0 + int 100000\<rparr>)"
    by (rule stalled_calls) simp_all
  have last: "Sys_DoubleTime_rounded (counter_reads (of_nat (2 * (100000 + 1))))
           (clock_at 8589934592\<lparr>timer_oldtime := of_nat 100000, sametimecount := 100000\<rparr>)
         = (8589934593,
            clock_at 8589934593\<lparr>timer_oldtime := of_nat (100000 + 1), sametimecount := 0\<rparr>)"
    using stalled_call [of 100000 100000] by simp
  have fin: "clock_at 8589934593\<lparr>timer_oldtime := of_nat (100000 + 1), sametimecount := 0\<rparr>
      = clock_at 8589934593\<lparr>timer_oldtime := 100001\<rparr>"
    by (simp add: clock_at_def initial_timers_def)
  show ?thesis
    apply (subst s0)
    apply (subst split)
    apply (simp only: map_append Sys_DoubleTime_rounded_calls_append run fst_conv snd_conv)
    using last fin apply simp
    done
qed

lemma startup_reaches_2_33:
  "snd (Sys_DoubleTime_rounded_calls
          (concat (replicate 2097152 [counter_reads 0x80000000, counter_reads 0]))
          (Sys_InitTimers (startup_with_counter 2097152 0) initial_timers))
   = clock_at 8589934592"
  using advancing_pairs [of 0 2097152] by (simp add: Sys_InitTimers_2MHz)

text \<open>[C2, amended] With the doubles rounded, the stall counter only counts calls on
  which the guard does not fire and the newly accumulated value equals
  \<open>lastcurtime\<close>, that is, calls whose delta is rounded away. Such a call
  increments the counter; if it then exceeds 100000 the same call adds 1.0 to the
  accumulated value (the sum rounded to \<open>double\<close>), resets the counter to zero
  and returns the increased value; otherwise it returns the unchanged value. A
  call whose reading equals the stored reading (zero delta) takes the guard
  branch: however often it is repeated, it returns \<open>curtime\<close> and changes no
  static, the stall counter included. The stall is reached from a start-up: with
  a counter of frequency \<open>2^21\<close>, \<open>2^22\<close> calls that each see the shifted reading
  move by \<open>2^30\<close> and \<open>3 * 2^30\<close> in turn bring \<open>curtime\<close> to \<open>2^33\<close> seconds;
  from there 100001 calls that each see the reading advance by one tick
  (\<open>2^-20\<close> s, half an ulp of \<open>2^33\<close>) return \<open>2^33\<close> 100000 times and then
  \<open>2^33 + 1\<close>.\<close>

theorem stall_breaker_counts_rounded_away_deltas:
  "(\<not> timer_fallback s
     \<and> \<not> (shifted_count (timer_lowshift s) (QueryPerformanceCounter api) \<le> timer_oldtime s
           \<and> timer_oldtime s - shifted_count (timer_lowshift s) (QueryPerformanceCounter api)
                < 0x10000000)
     \<and> double_round
          (curtime s
           + double_round
               (real (unat (shifted_count (timer_lowshift s) (QueryPerformanceCounter api)
                              - timer_oldtime s)) * timer_pfreq s))
         = lastcurtime s
     \<longrightarrow> Sys_DoubleTime_rounded api s =
          (if sametimecount s + 1 > 100000
           then (double_round (lastcurtime s + 1),
                 s\<lparr>timer_oldtime :=
                      shifted_count (timer_lowshift s) (QueryPerformanceCounter api),
                   curtime := double_round (lastcurtime s + 1),
                   lastcurtime := double_round (lastcurtime s + 1),
                   sametimecount := 0\<rparr>)
           else (lastcurtime s,
                 s\<lparr>timer_oldtime :=
                      shifted_count (timer_lowshift s) (QueryPerformanceCounter api),
                   curtime := lastcurtime s,
                   sametimecount := sametimecount s + 1\<rparr>)))
   \<and> (\<not> timer_fallback s'
       \<and> shifted_count (timer_lowshift s') (QueryPerformanceCounter api') = timer_oldtime s'
     \<longrightarrow> Sys_DoubleTime_rounded_calls (replicate n api') s' = (replicate n (curtime s'), s'))
   \<and> snd (Sys_DoubleTime_rounded_calls
          (concat (replicate 2097152 [counter_reads 0x80000000, counter_reads 0]))
          (Sys_InitTimers (startup_with_counter 2097152 0) initial_timers))
       = clock_at 8589934592
   \<and> Sys_DoubleTime_rounded_calls
        (map (\<lambda>k. counter_reads (of_nat (2 * k))) [1 ..< 100002]) (clock_at 8589934592)
       = (replicate 100000 8589934592 @ [8589934593],
          clock_at 8589934593\<lparr>timer_oldtime := 100001\<rparr>)"
proof (intro conjI impI)
  let ?temp = "shifted_count (timer_lowshift s) (QueryPerformanceCounter api)"
  assume a: "\<not> timer_fallback s
     \<and> \<not> (?temp \<le> timer_oldtime s \<and> timer_oldtime s - ?temp < 0x10000000)
     \<and> double_round
          (curtime s + double_round (real (unat (?temp - timer_oldtime s)) * timer_pfreq s))
         = lastcurtime s"
  then have nf: "\<not> timer_fallback s"
    and ng: "\<not> (?temp \<le> timer_oldtime s \<and> timer_oldtime s - ?temp < 0x10000000)"
    and c: "lastcurtime s = double_round
          (curtime s + double_round (real (unat (?temp - timer_oldtime s)) * timer_pfreq s))"
    by simp_all
  show "Sys_DoubleTime_rounded api s =
          (if sametimecount s + 1 > 100000
           then (double_round (lastcurtime s + 1),
                 s\<lparr>timer_oldtime := ?temp,
                   curtime := double_round (lastcurtime s + 1),
                   lastcurtime := double_round (lastcurtime s + 1),
                   sametimecount := 0\<rparr>)
           else (lastcurtime s,
                 s\<lparr>timer_oldtime := ?temp,
                   curtime := lastcurtime s,
                   sametimecount := sametimecount s + 1\<rparr>))"
    unfolding Sys_DoubleTime_rounded_advance [OF nf ng refl c] by simp
next
  assume "\<not> timer_fallback s'
       \<and> shifted_count (timer_lowshift s') (QueryPerformanceCounter api') = timer_oldtime s'"
  then show "Sys_DoubleTime_rounded_calls (replicate n api') s' = (replicate n (curtime s'), s')"
    by (simp add: Sys_DoubleTime_rounded_calls_zero_delta)
next
  show "snd (Sys_DoubleTime_rounded_calls
          (concat (replicate 2097152 [counter_reads 0x80000000, counter_reads 0]))
          (Sys_InitTimers (startup_with_counter 2097152 0) initial_timers))
       = clock_at 8589934592"
    by (rule startup_reaches_2_33)
next
  show "Sys_DoubleTime_rounded_calls
        (map (\<lambda>k. counter_reads (of_nat (2 * k))) [1 ..< 100002]) (clock_at 8589934592)
       = (replicate 100000 8589934592 @ [8589934593],
          clock_at 8589934593\<lparr>timer_oldtime := 100001\<rparr>)"
    by (rule stalled_run)
qed

theorem stall_breaker_counts_rounded_away_deltas_witness:
  "0 < timer_pfreq (clock_at 8589934592\<lparr>timer_oldtime := 5, sametimecount := 100000\<rparr>)
   \<and> lastcurtime (clock_at 8589934592\<lparr>timer_oldtime := 5, sametimecount := 100000\<rparr>)
       = curtime (clock_at 8589934592\<lparr>timer_oldtime := 5, sametimecount := 100000\<rparr>)
   \<and> Sys_DoubleTime_rounded (counter_reads 12)
        (clock_at 8589934592\<lparr>timer_oldtime := 5, sametimecount := 100000\<rparr>)
       = (8589934593, clock_at 8589934593\<lparr>timer_oldtime := 6\<rparr>)
   \<and> Sys_DoubleTime_rounded_calls (replicate 3 (counter_reads 10))
        (clock_at 8589934592\<lparr>timer_oldtime := 5, sametimecount := 100000\<rparr>)
       = ([8589934592, 8589934592, 8589934592],
          clock_at 8589934592\<lparr>timer_oldtime := 5, sametimecount := 100000\<rparr>)"
proof -
  let ?s = "clock_at 8589934592\<lparr>timer_oldtime := 5, sametimecount := 100000\<rparr>"
  note w = stall_breaker_counts_rounded_away_deltas
    [of "?s" "counter_reads 12" "?s" "counter_reads 10" 3]
  have nf: "\<not> timer_fallback ?s"
    by (simp add: clock_at_def initial_timers_def)
  have t12: "shifted_count (timer_lowshift ?s) (QueryPerformanceCounter (counter_reads 12)) = 6"
    and t10: "shifted_count (timer_lowshift ?s) (QueryPerformanceCounter (counter_reads 10))
                = timer_oldtime ?s"
    by (simp_all add: clock_at_def counter_reads_def shifted_count_def)
  have ng: "\<not> (shifted_count (timer_lowshift ?s) (QueryPerformanceCounter (counter_reads 12))
              \<le> timer_oldtime ?s
           \<and> timer_oldtime ?s
               - shifted_count (timer_lowshift ?s) (QueryPerformanceCounter (counter_reads 12))
              < 0x10000000)"
    unfolding t12 by (simp add: clock_at_def)
  have rb: "double_round
          (curtime ?s
           + double_round
               (real (unat (shifted_count (timer_lowshift ?s)
                              (QueryPerformanceCounter (counter_reads 12))
                              - timer_oldtime ?s)) * timer_pfreq ?s))
         = lastcurtime ?s"
    unfolding t12 using rounded_back by (simp add: clock_at_def)
  note a0 = w [THEN conjunct1, THEN mp, OF conjI [OF nf conjI [OF ng rb]]]
  have lc: "lastcurtime ?s = 8589934592" and cnt: "sametimecount ?s = 100000"
    by (simp_all add: clock_at_def)
  have a: "Sys_DoubleTime_rounded (counter_reads 12) ?s
       = (8589934593, clock_at 8589934593\<lparr>timer_oldtime := 6\<rparr>)"
    unfolding a0 t12 lc cnt one_second_later
    by (simp add: clock_at_def initial_timers_def)
  note b0 = w [THEN conjunct2, THEN conjunct1, THEN mp, OF conjI [OF nf t10]]
  have b: "Sys_DoubleTime_rounded_calls (replicate 3 (counter_reads 10)) ?s
       = ([8589934592, 8589934592, 8589934592], ?s)"
    unfolding b0 by (simp add: numeral_3_eq_3 clock_at_def)
  from a b show ?thesis
    by (simp add: clock_at_def initial_timers_def)
qed

subsection \<open>No error exit\<close>

text \<open>[C8] \<open>Sys_DoubleTime\<close> has no error exit: for every answer of the operating
  system and every content of the statics it returns a value and a state. Without
  a hardware timer it returns the fallback value and leaves the statics alone; on
  the primary path it returns the new \<open>curtime\<close>, which is the old one (backward
  or repeated reading), the old one plus the delta, or that plus the one-second
  stall jump. The libretro body returns a value for every \<open>timeval\<close> and every
  \<open>secbase\<close>.\<close>

theorem Sys_DoubleTime_always_returns:
  "(\<exists>v s'. Sys_DoubleTime api s = (v, s')
      \<and> (if timer_fallback s
         then s' = s
            \<and> (v = real (unat (timeGetTime api - timer_fallback_start s)) / 1000
               \<or> v = real (unat (timeGetTime api + (LONG_MAX - timer_fallback_start s)))
                      / 1000)
         else v = curtime s'
            \<and> timer_oldtime s' = shifted_count (timer_lowshift s) (QueryPerformanceCounter api)
            \<and> (v = curtime s
               \<or> v = curtime s
                    + real (unat (shifted_count (timer_lowshift s)
                                    (QueryPerformanceCounter api) - timer_oldtime s))
                      * timer_pfreq s
               \<or> v = curtime s
                    + real (unat (shifted_count (timer_lowshift s)
                                    (QueryPerformanceCounter api) - timer_oldtime s))
                      * timer_pfreq s + 1)))
   \<and> (\<exists>v secbase'. Sys_DoubleTime_libretro tp secbase = (v, secbase'))"
proof (intro conjI)
  let ?temp = "shifted_count (timer_lowshift s) (QueryPerformanceCounter api)"
  let ?v = "fst (Sys_DoubleTime api s)" and ?s' = "snd (Sys_DoubleTime api s)"
  have "if timer_fallback s
         then ?s' = s
            \<and> (?v = real (unat (timeGetTime api - timer_fallback_start s)) / 1000
               \<or> ?v = real (unat (timeGetTime api + (LONG_MAX - timer_fallback_start s)))
                      / 1000)
         else ?v = curtime ?s'
            \<and> timer_oldtime ?s' = ?temp
            \<and> (?v = curtime s
               \<or> ?v = curtime s + real (unat (?temp - timer_oldtime s)) * timer_pfreq s
               \<or> ?v = curtime s + real (unat (?temp - timer_oldtime s)) * timer_pfreq s + 1)"
  proof (cases "timer_fallback s")
    case True
    then show ?thesis by (simp add: Sys_DoubleTime_fallback)
  next
    case False
    show ?thesis
    proof (cases "?temp \<le> timer_oldtime s \<and> timer_oldtime s - ?temp < 0x10000000")
      case True
      with False show ?thesis by (simp add: Sys_DoubleTime_guard)
    next
      case ng: False
      from Sys_DoubleTime_advance [OF False ng refl refl] False show ?thesis
        by (simp split: if_splits)
    qed
  qed
  then show "\<exists>v s'. Sys_DoubleTime api s = (v, s')
      \<and> (if timer_fallback s
         then s' = s
            \<and> (v = real (unat (timeGetTime api - timer_fallback_start s)) / 1000
               \<or> v = real (unat (timeGetTime api + (LONG_MAX - timer_fallback_start s)))
                      / 1000)
         else v = curtime s'
            \<and> timer_oldtime s' = shifted_count (timer_lowshift s) (QueryPerformanceCounter api)
            \<and> (v = curtime s
               \<or> v = curtime s
                    + real (unat (shifted_count (timer_lowshift s)
                                    (QueryPerformanceCounter api) - timer_oldtime s))
                      * timer_pfreq s
               \<or> v = curtime s
                    + real (unat (shifted_count (timer_lowshift s)
                                    (QueryPerformanceCounter api) - timer_oldtime s))
                      * timer_pfreq s + 1))"
    by (intro exI [of _ ?v] exI [of _ ?s']) simp
next
  show "\<exists>v secbase'. Sys_DoubleTime_libretro tp secbase = (v, secbase')"
    by (simp add: Sys_DoubleTime_libretro_def)
qed

theorem Sys_DoubleTime_always_returns_witness:
  "Sys_DoubleTime (counter_reads 3)
      (initial_timers\<lparr>timer_pfreq := 1 / 1000000, timer_oldtime := 1000003,
         curtime := 4, lastcurtime := 4\<rparr>)
     = (4, initial_timers\<lparr>timer_pfreq := 1 / 1000000, timer_oldtime := 3,
             curtime := 4, lastcurtime := 4\<rparr>)
   \<and> Sys_DoubleTime_libretro \<lparr>tv_sec = 1793000000, tv_usec = 500000\<rparr> 1792999990
     = (21 / 2, 1792999990)"
  using Sys_DoubleTime_always_returns
    [of "counter_reads 3"
        "initial_timers\<lparr>timer_pfreq := 1 / 1000000, timer_oldtime := 1000003,
           curtime := 4, lastcurtime := 4\<rparr>"
        "\<lparr>tv_sec = 1793000000, tv_usec = 500000\<rparr>" 1792999990]
  by (simp add: Sys_DoubleTime_def Sys_DoubleTime_libretro_def shifted_count_def
        counter_reads_def initial_timers_def)

subsection \<open>The fallback value\<close>

lemma fallback_quarter_second:
  assumes "timer_fallback s"
    and "unat (timer_fallback_start s) + 250 < 2 ^ 32"
    and "timeGetTime api = timer_fallback_start s + 250"
  shows "fst (Sys_DoubleTime api s) = 1 / 4"
proof -
  from assms(2) have u: "unat (timer_fallback_start s + 250) = unat (timer_fallback_start s) + 250"
    by (simp add: unat_word_ariths)
  then have "\<not> timer_fallback_start s + 250 < timer_fallback_start s"
    by (simp add: word_less_nat_alt)
  with assms(1,3) show ?thesis
    by (simp add: Sys_DoubleTime_fallback)
qed

text \<open>[C5] The wrapped branch adds \<open>LONG_MAX\<close> (\<open>2^31 - 1\<close>), not the span
  \<open>2^32\<close> of the \<open>DWORD\<close> counter. With the origin at \<open>0xFFFFFF00\<close> and a
  sample at \<open>0x61\<close>, 353 ms after the origin, \<open>Sys_DoubleTime\<close> returns
  2147484 seconds; the wrapped difference divided by 1000 is 0.353.\<close>

theorem fallback_wrap_adds_LONG_MAX:
  "fst (Sys_DoubleTime (millis_reads 0x61)
          (initial_timers\<lparr>timer_fallback := True, timer_fallback_start := 0xFFFFFF00\<rparr>))
     = 2147484
   \<and> (0x61 :: u32) < 0xFFFFFF00
   \<and> real (unat ((0x61 :: u32) - 0xFFFFFF00)) / 1000 = 353 / 1000"
  by (simp add: Sys_DoubleTime_def millis_reads_def initial_timers_def LONG_MAX_def)

subsection \<open>The first call of the libretro clock\<close>

lemma int_of_time_t_fits:
  assumes "- (2 ^ 31) \<le> t" and "t < 2 ^ 31"
  shows "int_of_time_t t = t"
  using assms by (simp add: int_of_time_t_def)

text \<open>[C10] In the libretro body, a call with \<open>secbase\<close> still zero stores the
  current seconds in \<open>secbase\<close> (converted to \<open>int\<close>; the seconds themselves when
  they fit) and returns only \<open>tv_usec / 1000000.0\<close>. As \<open>gettimeofday\<close> delivers
  \<open>0 \<le> tv_usec < 1000000\<close>, the returned value lies in the interval from 0
  (included) to 1 (excluded).\<close>

theorem libretro_first_call_returns_fraction:
  assumes "secbase = 0" and "tv_sec tp \<noteq> 0"
    and "0 \<le> tv_usec tp" and "tv_usec tp < 1000000"
  shows "fst (Sys_DoubleTime_libretro tp secbase) = real_of_int (tv_usec tp) / 1000000
       \<and> 0 \<le> fst (Sys_DoubleTime_libretro tp secbase)
       \<and> fst (Sys_DoubleTime_libretro tp secbase) < 1
       \<and> snd (Sys_DoubleTime_libretro tp secbase) = int_of_time_t (tv_sec tp)
       \<and> (- (2 ^ 31) \<le> tv_sec tp \<and> tv_sec tp < 2 ^ 31
            \<longrightarrow> snd (Sys_DoubleTime_libretro tp secbase) = tv_sec tp
              \<and> snd (Sys_DoubleTime_libretro tp secbase) \<noteq> 0)"
  using assms by (simp add: Sys_DoubleTime_libretro_def int_of_time_t_fits)

theorem libretro_first_call_returns_fraction_witness:
  "(0::int) = 0 \<and> tv_sec \<lparr>tv_sec = 1793000000, tv_usec = 250000\<rparr> \<noteq> 0
   \<and> 0 \<le> tv_usec \<lparr>tv_sec = 1793000000, tv_usec = 250000\<rparr>
   \<and> tv_usec \<lparr>tv_sec = 1793000000, tv_usec = 250000\<rparr> < 1000000
   \<and> - (2 ^ 31) \<le> tv_sec \<lparr>tv_sec = 1793000000, tv_usec = 250000\<rparr>
   \<and> tv_sec \<lparr>tv_sec = 1793000000, tv_usec = 250000\<rparr> < 2 ^ 31
   \<and> Sys_DoubleTime_libretro \<lparr>tv_sec = 1793000000, tv_usec = 250000\<rparr> 0
       = (1 / 4, 1793000000)"
  using libretro_first_call_returns_fraction
    [of 0 "\<lparr>tv_sec = 1793000000, tv_usec = 250000\<rparr>"]
  by (simp add: Sys_DoubleTime_libretro_def int_of_time_t_def)

subsection \<open>Monotonicity\<close>

lemma Sys_DoubleTime_primary_mono:
  assumes "\<not> timer_fallback s" and "0 \<le> timer_pfreq s"
  shows "curtime s \<le> fst (Sys_DoubleTime api s)"
proof -
  let ?temp = "shifted_count (timer_lowshift s) (QueryPerformanceCounter api)"
  show ?thesis
  proof (cases "?temp \<le> timer_oldtime s \<and> timer_oldtime s - ?temp < 0x10000000")
    case True
    with assms(1) show ?thesis by (simp add: Sys_DoubleTime_guard)
  next
    case False
    from assms(2) have "0 \<le> real (unat (?temp - timer_oldtime s)) * timer_pfreq s"
      by (intro mult_nonneg_nonneg) simp_all
    with Sys_DoubleTime_advance [OF assms(1) False refl refl] show ?thesis
      by (simp split: if_splits)
  qed
qed

lemma Sys_DoubleTime_calls_primary_sorted:
  assumes "\<not> timer_fallback s" and "0 \<le> timer_pfreq s"
  shows "sorted (fst (Sys_DoubleTime_calls apis s))
       \<and> (\<forall>v \<in> set (fst (Sys_DoubleTime_calls apis s)). curtime s \<le> v)"
  using assms
proof (induction apis arbitrary: s)
  case Nil
  then show ?case by simp
next
  case (Cons api apis)
  let ?s' = "snd (Sys_DoubleTime api s)"
  note fr = Sys_DoubleTime_primary_frame [OF Cons.prems(1), of api]
  from fr Cons.prems have "\<not> timer_fallback ?s'" and "0 \<le> timer_pfreq ?s'"
    by simp_all
  from Cons.IH [OF this]
  have ih: "sorted (fst (Sys_DoubleTime_calls apis ?s'))"
    and lb: "\<forall>v \<in> set (fst (Sys_DoubleTime_calls apis ?s')). curtime ?s' \<le> v"
    by simp_all
  from Sys_DoubleTime_primary_mono [OF Cons.prems, of api]
  have step: "curtime s \<le> fst (Sys_DoubleTime api s)" .
  from fr(2) have ret: "fst (Sys_DoubleTime api s) = curtime ?s'" .
  from ih lb step ret show ?case
    by (auto simp: sorted_simps)
qed

lemma Sys_InitTimers_primary:
  assumes "QueryPerformanceFrequency api \<noteq> None"
  shows "timer_fallback (Sys_InitTimers api s) = timer_fallback s"
    and "0 \<le> timer_pfreq (Sys_InitTimers api s)"
  using assms by (auto simp: Sys_InitTimers_def split: option.splits prod.splits)

lemma Sys_InitTimers_fallback:
  assumes "QueryPerformanceFrequency api = None"
  shows "Sys_InitTimers api s =
           s\<lparr>timer_fallback := True, timer_fallback_start := timeGetTime api\<rparr>"
  using assms by (simp add: Sys_InitTimers_def)

lemma Sys_DoubleTime_calls_fallback:
  assumes "timer_fallback s"
    and "\<forall>api \<in> set apis. timer_fallback_start s \<le> timeGetTime api"
  shows "fst (Sys_DoubleTime_calls apis s) =
           map (\<lambda>api. real (unat (timeGetTime api - timer_fallback_start s)) / 1000) apis"
  using assms
proof (induction apis)
  case Nil
  then show ?case by simp
next
  case (Cons api apis)
  from Cons.prems have "\<not> timeGetTime api < timer_fallback_start s"
    by (simp add: not_less)
  with Cons show ?case
    by (simp add: Sys_DoubleTime_fallback)
qed

lemma fallback_value_mono:
  fixes start a b :: u32
  assumes "start \<le> a" and "a \<le> b"
  shows "real (unat (a - start)) / 1000 \<le> real (unat (b - start)) / 1000"
proof -
  from assms have "start \<le> b" by simp
  with assms have "unat (a - start) \<le> unat (b - start)"
    by (simp add: unat_sub word_le_nat_alt)
  then show ?thesis by (simp add: divide_right_mono)
qed

lemma Sys_DoubleTime_calls_fallback_sorted:
  assumes "timer_fallback s"
    and "sorted (timer_fallback_start s # map timeGetTime apis)"
  shows "sorted (fst (Sys_DoubleTime_calls apis s))"
proof -
  from assms(2) have ge: "\<forall>api \<in> set apis. timer_fallback_start s \<le> timeGetTime api"
    and srt: "sorted (map timeGetTime apis)"
    by (simp_all add: sorted_simps)
  from srt have "sorted_wrt (\<lambda>x y. timeGetTime x \<le> timeGetTime y) apis"
    by (simp add: sorted_map)
  then have "sorted_wrt (\<lambda>x y. real (unat (timeGetTime x - timer_fallback_start s)) / 1000
                            \<le> real (unat (timeGetTime y - timer_fallback_start s)) / 1000) apis"
    using ge by (elim sorted_wrt_mono_rel [rotated]) (rule fallback_value_mono, simp_all)
  then show ?thesis
    by (simp add: Sys_DoubleTime_calls_fallback [OF assms(1) ge] sorted_map)
qed

lemma Sys_DoubleTime_libretro_calls_based:
  assumes "secbase \<noteq> 0"
  shows "fst (Sys_DoubleTime_libretro_calls tps secbase) =
           map (\<lambda>tp. real_of_int (tv_sec tp - secbase) + real_of_int (tv_usec tp) / 1000000) tps"
  using assms by (induction tps) (simp_all add: Sys_DoubleTime_libretro_def)

lemma libretro_value_mono:
  assumes "a_sec * 1000000 + a_usec \<le> b_sec * 1000000 + (b_usec :: int)"
  shows "real_of_int (a_sec - secbase) + real_of_int a_usec / 1000000
       \<le> real_of_int (b_sec - secbase) + real_of_int b_usec / 1000000"
proof -
  from assms have "real_of_int (a_sec * 1000000 + a_usec) \<le> real_of_int (b_sec * 1000000 + b_usec)"
    by (simp only: of_int_le_iff)
  then show ?thesis by (simp add: field_simps)
qed

lemma Sys_DoubleTime_libretro_calls_sorted:
  assumes "\<forall>tp \<in> set tps. 0 < tv_sec tp \<and> tv_sec tp < 2 ^ 31"
    and "sorted (map (\<lambda>tp. tv_sec tp * 1000000 + tv_usec tp) tps)"
  shows "sorted (fst (Sys_DoubleTime_libretro_calls tps 0))"
proof (cases tps)
  case Nil
  then show ?thesis by simp
next
  case (Cons tp0 rest)
  let ?g = "\<lambda>tp. real_of_int (tv_sec tp - tv_sec tp0) + real_of_int (tv_usec tp) / 1000000"
  from assms(1) Cons have s0: "0 < tv_sec tp0" "tv_sec tp0 < 2 ^ 31" by simp_all
  then have base: "int_of_time_t (tv_sec tp0) = tv_sec tp0"
    by (intro int_of_time_t_fits) simp_all
  from s0 have nz: "tv_sec tp0 \<noteq> 0" by simp
  have "fst (Sys_DoubleTime_libretro_calls tps 0) = map ?g tps"
    using Cons base Sys_DoubleTime_libretro_calls_based [OF nz, of rest]
    by (simp add: Sys_DoubleTime_libretro_def)
  moreover from assms(2)
  have "sorted_wrt (\<lambda>x y. tv_sec x * 1000000 + tv_usec x \<le> tv_sec y * 1000000 + tv_usec y) tps"
    by (simp add: sorted_map)
  then have "sorted_wrt (\<lambda>x y. ?g x \<le> ?g y) tps"
    by (elim sorted_wrt_mono_rel [rotated]) (rule libretro_value_mono)
  ultimately show ?thesis by (simp add: sorted_map)
qed

text \<open>[C1] The claim fails in fallback mode, where the value is computed afresh
  from \<open>timeGetTime\<close> at every call. With the origin at millisecond 1000, a call at
  millisecond 1500 returns 0.5 and a later call, after the 32-bit millisecond
  counter has gone round, at millisecond 1250 returns 0.25.\<close>

theorem fallback_clock_goes_backward:
  "fst (Sys_DoubleTime_calls [millis_reads 1500, millis_reads 1250]
          (Sys_InitTimers (startup_without_counter 1000) initial_timers))
     = [1 / 2, 1 / 4]
   \<and> \<not> sorted (fst (Sys_DoubleTime_calls [millis_reads 1500, millis_reads 1250]
          (Sys_InitTimers (startup_without_counter 1000) initial_timers)))"
proof -
  have "fst (Sys_DoubleTime_calls [millis_reads 1500, millis_reads 1250]
          (Sys_InitTimers (startup_without_counter 1000) initial_timers))
     = [1 / 2, 1 / 4]"
    by (simp add: Sys_DoubleTime_def Sys_InitTimers_def millis_reads_def
          startup_without_counter_def initial_timers_def)
  then show ?thesis by simp
qed

text \<open>[C1, amended] After \<open>Sys_InitTimers\<close> has found a performance counter
  (of nonzero frequency), every sequence of calls of \<open>Sys_DoubleTime\<close>, whatever the counter reads,
  returns a non-decreasing sequence of values (each is the \<open>curtime\<close> static after
  its call). In fallback mode the returned values are non-decreasing as long as
  the \<open>timeGetTime\<close> readings are non-decreasing from the origin on, that is,
  until the millisecond counter wraps. The libretro clock returns non-decreasing
  values when \<open>gettimeofday\<close> reports non-decreasing times with seconds between
  1 and \<open>2^31 - 1\<close>.\<close>

theorem clock_is_monotone_until_fallback_wraps:
  "(QueryPerformanceFrequency api0 = Some freq \<and> QuadPart freq \<noteq> 0
      \<longrightarrow> sorted (fst (Sys_DoubleTime_calls apis (Sys_InitTimers api0 initial_timers))))
   \<and> (QueryPerformanceFrequency api0' = None
        \<and> sorted (timeGetTime api0' # map timeGetTime apis')
      \<longrightarrow> sorted (fst (Sys_DoubleTime_calls apis' (Sys_InitTimers api0' initial_timers))))
   \<and> ((\<forall>tp \<in> set tps. 0 < tv_sec tp \<and> tv_sec tp < 2 ^ 31)
        \<and> sorted (map (\<lambda>tp. tv_sec tp * 1000000 + tv_usec tp) tps)
      \<longrightarrow> sorted (fst (Sys_DoubleTime_libretro_calls tps 0)))"
proof (intro conjI impI)
  assume "QueryPerformanceFrequency api0 = Some freq \<and> QuadPart freq \<noteq> 0"
  then have "QueryPerformanceFrequency api0 \<noteq> None" by simp
  from Sys_InitTimers_primary [OF this, of initial_timers]
  have "\<not> timer_fallback (Sys_InitTimers api0 initial_timers)"
    and "0 \<le> timer_pfreq (Sys_InitTimers api0 initial_timers)"
    by (simp_all add: initial_timers_def)
  then show "sorted (fst (Sys_DoubleTime_calls apis (Sys_InitTimers api0 initial_timers)))"
    by (simp add: Sys_DoubleTime_calls_primary_sorted)
next
  assume a: "QueryPerformanceFrequency api0' = None
        \<and> sorted (timeGetTime api0' # map timeGetTime apis')"
  then have "Sys_InitTimers api0' initial_timers =
      initial_timers\<lparr>timer_fallback := True, timer_fallback_start := timeGetTime api0'\<rparr>"
    by (simp add: Sys_InitTimers_fallback)
  with a show "sorted (fst (Sys_DoubleTime_calls apis' (Sys_InitTimers api0' initial_timers)))"
    by (simp add: Sys_DoubleTime_calls_fallback_sorted)
next
  assume "(\<forall>tp \<in> set tps. 0 < tv_sec tp \<and> tv_sec tp < 2 ^ 31)
        \<and> sorted (map (\<lambda>tp. tv_sec tp * 1000000 + tv_usec tp) tps)"
  then show "sorted (fst (Sys_DoubleTime_libretro_calls tps 0))"
    by (simp add: Sys_DoubleTime_libretro_calls_sorted)
qed

theorem clock_is_monotone_until_fallback_wraps_witness:
  "QueryPerformanceFrequency (startup_with_counter 1000000 5)
     = Some \<lparr>LowPart = 1000000, HighPart = 0\<rparr>
   \<and> QuadPart \<lparr>LowPart = 1000000, HighPart = 0\<rparr> \<noteq> 0
   \<and> sorted (fst (Sys_DoubleTime_calls
        [counter_reads 1000005, counter_reads 1000004, counter_reads 3000004]
        (Sys_InitTimers (startup_with_counter 1000000 5) initial_timers)))
   \<and> QueryPerformanceFrequency (startup_without_counter 100) = None
   \<and> sorted (timeGetTime (startup_without_counter 100)
        # map timeGetTime [millis_reads 150, millis_reads 350])
   \<and> sorted (fst (Sys_DoubleTime_calls [millis_reads 150, millis_reads 350]
        (Sys_InitTimers (startup_without_counter 100) initial_timers)))
   \<and> sorted (fst (Sys_DoubleTime_libretro_calls
        [\<lparr>tv_sec = 1793000000, tv_usec = 999999\<rparr>, \<lparr>tv_sec = 1793000001, tv_usec = 5\<rparr>] 0))"
  using clock_is_monotone_until_fallback_wraps
    [of "startup_with_counter 1000000 5" "\<lparr>LowPart = 1000000, HighPart = 0\<rparr>"
        "[counter_reads 1000005, counter_reads 1000004, counter_reads 3000004]"
        "startup_without_counter 100"
        "[millis_reads 150, millis_reads 350]"
        "[\<lparr>tv_sec = 1793000000, tv_usec = 999999\<rparr>, \<lparr>tv_sec = 1793000001, tv_usec = 5\<rparr>]"]
  by (simp add: startup_with_counter_def startup_without_counter_def millis_reads_def
        QuadPart_def)

subsection \<open>Calibration\<close>

lemma unat_drop1: "unat (drop_bit 1 (w::u32)) = unat w div 2"
  unfolding drop_bit_eq_div by (simp add: unat_div)

lemma unat_top_bit: "unat (push_bit 31 ((hi::u32) AND 1)) = (unat hi mod 2) * 2 ^ 31"
proof -
  have a: "unat (hi AND 1) = unat hi mod 2"
    by (simp add: and_one_eq unat_mod)
  have b: "unat (push_bit 31 (hi AND 1)) = (unat (hi AND 1) * 2 ^ 31) mod 2 ^ 32"
    unfolding push_bit_eq_mult by (simp add: unat_word_ariths)
  have "unat hi mod 2 < 2" by simp
  then have "unat hi mod 2 * 2 ^ 31 < (2::nat) ^ 32" by simp
  then show ?thesis unfolding b a by simp
qed

lemma unat_low_step:
  fixes lo hi :: u32
  shows "unat (drop_bit 1 lo OR push_bit 31 (hi AND 1)) = unat lo div 2 + (unat hi mod 2) * 2 ^ 31"
proof -
  have eq: "drop_bit 1 lo OR push_bit 31 (hi AND 1) = drop_bit 1 lo + push_bit 31 (hi AND 1)"
    by (rule disjunctive_add [symmetric]) (auto simp: bit_simps dest: bit_imp_le_length)
  have "unat lo div 2 < 2 ^ 31"
    using unsigned_less [of lo, where ?'a = nat] by simp
  moreover have "unat hi mod 2 * 2 ^ 31 \<le> (2::nat) ^ 31" by simp
  ultimately have "unat (drop_bit 1 lo) + unat (push_bit 31 (hi AND 1)) < 2 ^ LENGTH(32)"
    unfolding unat_drop1 unat_top_bit by simp
  then have "unat (drop_bit 1 lo + push_bit 31 (hi AND 1)) =
      unat (drop_bit 1 lo) + unat (push_bit 31 (hi AND 1))"
    by (simp only: unat_add_lem)
  then show ?thesis unfolding eq unat_drop1 unat_top_bit .
qed

lemma loop_step_value:
  fixes lo hi :: u32
  shows "unat (drop_bit 1 hi) * 2 ^ 32 + unat (drop_bit 1 lo OR push_bit 31 (hi AND 1))
       = (unat hi * 2 ^ 32 + unat lo) div 2"
proof -
  define h l where "h = unat hi" and "l = unat lo"
  have "h * 2147483648 = (2 * (h div 2) + h mod 2) * 2147483648"
    by (simp only: mult_div_mod_eq)
  also have "\<dots> = h div 2 * 4294967296 + h mod 2 * 2147483648"
    by (simp only: distrib_right)
  finally have e: "h * 2147483648 = h div 2 * 4294967296 + h mod 2 * 2147483648" .
  have "(h * 4294967296 + l) div 2 = (l + (h * 2147483648) * 2) div 2"
    by (simp add: ac_simps)
  also have "\<dots> = l div 2 + h * 2147483648"
    by (simp only: div_mult_self3)
  finally have "(h * 4294967296 + l) div 2 = h div 2 * 4294967296 + (l div 2 + h mod 2 * 2147483648)"
    using e by simp
  then show ?thesis unfolding unat_low_step unat_drop1 h_def l_def by simp
qed

lemma loop_condition:
  fixes lo hi :: u32
  shows "(hi \<noteq> 0 \<or> real (unat lo) > 2000000) \<longleftrightarrow> 2000000 < unat hi * 2 ^ 32 + unat lo"
proof (cases "hi = 0")
  case True
  then show ?thesis by simp
next
  case False
  then have "0 < unat hi" by (simp add: unat_gt_0)
  then have "1 * (2::nat) ^ 32 \<le> unat hi * 2 ^ 32"
    by (intro mult_le_mono1) simp
  with False show ?thesis by simp
qed

lemma Sys_InitTimers_loop_result:
  assumes "Sys_InitTimers_loop lo hi n = (lo', hi', n')"
  shows "hi' = 0 \<and> n \<le> n'
       \<and> unat lo' = (unat hi * 2 ^ 32 + unat lo) div 2 ^ (n' - n)
       \<and> unat lo' \<le> 2000000
       \<and> (\<forall>j < n' - n. 2000000 < (unat hi * 2 ^ 32 + unat lo) div 2 ^ j)"
  using assms
proof (induction lo hi n rule: Sys_InitTimers_loop.induct)
  case (1 lowpart highpart lowshift)
  let ?V = "unat highpart * 2 ^ 32 + unat lowpart"
  show ?case
  proof (cases "highpart \<noteq> 0 \<or> real (unat lowpart) > 2000000")
    case True
    let ?lo1 = "drop_bit 1 lowpart OR push_bit 31 (highpart AND 1)"
    let ?hi1 = "drop_bit 1 highpart"
    from True "1.prems"
    have run: "Sys_InitTimers_loop ?lo1 ?hi1 (lowshift + 1) = (lo', hi', n')"
      by (subst (asm) Sys_InitTimers_loop.simps) simp
    have V1: "unat ?hi1 * 2 ^ 32 + unat ?lo1 = ?V div 2"
      by (rule loop_step_value)
    from "1.IH" [OF True run] V1
    have ih: "hi' = 0" "lowshift + 1 \<le> n'"
      "unat lo' = (?V div 2) div 2 ^ (n' - (lowshift + 1))"
      "unat lo' \<le> 2000000"
      "\<forall>j < n' - (lowshift + 1). 2000000 < (?V div 2) div 2 ^ j"
      by simp_all
    from ih(2) have k: "n' - lowshift = Suc (n' - (lowshift + 1))" by simp
    have big: "2000000 < ?V"
      using True loop_condition [of highpart lowpart] by simp
    have "2000000 < ?V div 2 ^ j" if "j < n' - lowshift" for j
    proof (cases j)
      case 0
      with big show ?thesis by simp
    next
      case (Suc i)
      with that k have "i < n' - (lowshift + 1)" by simp
      with ih(5) have "2000000 < (?V div 2) div 2 ^ i" by simp
      with Suc show ?thesis by (simp add: div_mult2_eq)
    qed
    moreover from ih(3) k have "unat lo' = ?V div 2 ^ (n' - lowshift)"
      by (simp add: div_mult2_eq)
    ultimately show ?thesis using ih(1,2,4) by simp
  next
    case False
    with "1.prems" have "lo' = lowpart" "hi' = highpart" "n' = lowshift"
      by (subst (asm) Sys_InitTimers_loop.simps, simp)+
    with False show ?thesis by simp
  qed
qed

lemma QuadPart_bits:
  "QuadPart pc = push_bit 32 (unat (HighPart pc)) OR unat (LowPart pc)"
proof -
  have "push_bit 32 (unat (HighPart pc)) + unat (LowPart pc)
      = push_bit 32 (unat (HighPart pc)) OR unat (LowPart pc)"
    by (rule disjunctive_add) (auto simp: bit_simps dest: bit_imp_le_length)
  then show ?thesis by (simp add: QuadPart_def push_bit_eq_mult)
qed

lemma shifted_count_value:
  assumes "0 < k" and "k < 32"
  shows "shifted_count k pc = of_nat (QuadPart pc div 2 ^ k)"
proof (rule bit_word_eqI)
  fix n assume "n < LENGTH(32)"
  then show "bit (shifted_count k pc) n \<longleftrightarrow> bit (of_nat (QuadPart pc div 2 ^ k) :: u32) n"
    using assms
    by (auto simp: shifted_count_def QuadPart_bits bit_simps add.commute
        simp flip: drop_bit_eq_div dest: bit_imp_le_length)
qed

lemma Sys_InitTimers_with_counter:
  assumes "QueryPerformanceFrequency api = Some freq"
    and "Sys_InitTimers_loop (LowPart freq) (HighPart freq) 0 = (lowpart, highpart, lowshift)"
  shows "Sys_InitTimers api s =
           s\<lparr>timer_lowshift := lowshift, timer_pfreq := 1 / real (unat lowpart),
             timer_oldtime := shifted_count lowshift (QueryPerformanceCounter api)\<rparr>"
  using assms by (simp add: Sys_InitTimers_def)

lemma Sys_InitTimers_scaled:
  assumes "QueryPerformanceFrequency api = Some freq"
    and "s' = Sys_InitTimers api s"
    and "k = timer_lowshift s'"
  shows "Sys_InitTimers_loop (LowPart freq) (HighPart freq) 0
           = (of_nat (QuadPart freq div 2 ^ k), 0, k)"
    and "QuadPart freq div 2 ^ k \<le> 2000000"
    and "\<forall>j < k. 2000000 < QuadPart freq div 2 ^ j"
    and "0 < k \<longrightarrow> 1000000 \<le> QuadPart freq div 2 ^ k"
    and "timer_pfreq s' = 1 / real (QuadPart freq div 2 ^ k)"
    and "timer_oldtime s' = shifted_count k (QueryPerformanceCounter api)"
proof -
  obtain lowpart highpart lowshift
    where run: "Sys_InitTimers_loop (LowPart freq) (HighPart freq) 0
                  = (lowpart, highpart, lowshift)"
    by (cases "Sys_InitTimers_loop (LowPart freq) (HighPart freq) 0") auto
  note init = Sys_InitTimers_with_counter [OF assms(1) run, of s]
  from init assms(2,3) have k: "k = lowshift" by simp
  from Sys_InitTimers_loop_result [OF run]
  have res: "highpart = 0" "unat lowpart = QuadPart freq div 2 ^ k"
    "unat lowpart \<le> 2000000" "\<forall>j < k. 2000000 < QuadPart freq div 2 ^ j"
    by (simp_all add: QuadPart_def k)
  from res(2) have "lowpart = of_nat (QuadPart freq div 2 ^ k)"
    using of_nat_unat [of lowpart, where ?'a = "32 word"] by simp
  with run res(1) k
  show "Sys_InitTimers_loop (LowPart freq) (HighPart freq) 0
           = (of_nat (QuadPart freq div 2 ^ k), 0, k)"
    by simp
  from res(2,3) show "QuadPart freq div 2 ^ k \<le> 2000000" by simp
  from res(4) show all: "\<forall>j < k. 2000000 < QuadPart freq div 2 ^ j" .
  show "0 < k \<longrightarrow> 1000000 \<le> QuadPart freq div 2 ^ k"
  proof
    assume "0 < k"
    then obtain i where i: "k = Suc i" by (cases k) auto
    with all have "2000000 < QuadPart freq div 2 ^ i" by simp
    moreover have "QuadPart freq div 2 ^ k = (QuadPart freq div 2 ^ i) div 2"
      unfolding i power_Suc2 by (rule div_mult2_eq)
    ultimately show "1000000 \<le> QuadPart freq div 2 ^ k" by simp
  qed
  from init assms(2) res(2) show "timer_pfreq s' = 1 / real (QuadPart freq div 2 ^ k)"
    by simp
  from init assms(2) k show "timer_oldtime s' = shifted_count k (QueryPerformanceCounter api)"
    by simp
qed

lemma div_pow2_lower: fixes F k :: nat shows "F div 2 ^ k * 2 ^ k \<le> F"
  by simp

lemma div_pow2_upper: fixes F k :: nat shows "F < (F div 2 ^ k + 1) * 2 ^ k"
  using dividend_less_div_times [of "2 ^ k" F] by (simp add: algebra_simps)

lemma real_lower: fixes F S k :: nat assumes "S * 2 ^ k \<le> F" shows "real S * 2 ^ k \<le> real F"
proof -
  from assms have "real (S * 2 ^ k) \<le> real F" by (simp only: of_nat_le_iff)
  then show ?thesis by simp
qed

lemma real_upper: fixes F S k :: nat assumes "F < (S + 1) * 2 ^ k" shows "real F \<le> (real S + 1) * 2 ^ k"
proof -
  from assms have "real F \<le> real ((S + 1) * 2 ^ k)" by (simp only: of_nat_le_iff less_imp_le)
  then show ?thesis by (simp add: algebra_simps)
qed

lemma seconds_lower:
  fixes d S F p :: real
  assumes "0 < S" "0 < F" "0 \<le> d" "S * p \<le> F"
  shows "d * p / F \<le> d / S"
proof -
  have "d * (S * p) \<le> d * F"
    using assms(3,4) by (rule mult_left_mono [rotated])
  with assms(1,2) show ?thesis by (simp add: field_simps)
qed

lemma seconds_upper:
  fixes d S F p :: real
  assumes "0 < S" "0 < F" "0 \<le> d" "F \<le> (S + 1) * p"
  shows "d / S \<le> (d * p / F) * (1 + 1 / S)"
proof -
  have "d * F \<le> d * ((S + 1) * p)"
    using assms(3,4) by (rule mult_left_mono [rotated])
  with assms(1,2) show ?thesis by (simp add: field_simps)
qed

lemma scaled_seconds_bounds:
  fixes F k d :: nat
  assumes "0 < F div 2 ^ k"
  shows "real d * 2 ^ k / real F \<le> real d / real (F div 2 ^ k)"
    and "real d / real (F div 2 ^ k)
           \<le> (real d * 2 ^ k / real F) * (1 + 1 / real (F div 2 ^ k))"
proof -
  from assms have "0 < F" by (cases "F = 0") simp_all
  then have F: "0 < real F" by simp
  from assms have S: "0 < real (F div 2 ^ k)" by simp
  show "real d * 2 ^ k / real F \<le> real d / real (F div 2 ^ k)"
    using S F by (rule seconds_lower) (simp_all add: real_lower [OF div_pow2_lower])
  show "real d / real (F div 2 ^ k)
           \<le> (real d * 2 ^ k / real F) * (1 + 1 / real (F div 2 ^ k))"
    using S F by (rule seconds_upper) (simp_all add: real_upper [OF div_pow2_upper])
qed

lemma Sys_InitTimers_14MHz:
  "Sys_InitTimers (startup_with_counter 14318180 0) initial_timers =
     initial_timers\<lparr>timer_lowshift := 3, timer_pfreq := 1 / 1789772\<rparr>"
proof -
  have "Sys_InitTimers_loop 14318180 0 0 = (1789772, 0, 3)"
    apply (subst Sys_InitTimers_loop.simps, simp)
    apply (subst Sys_InitTimers_loop.simps, simp)
    apply (subst Sys_InitTimers_loop.simps, simp)
    apply (subst Sys_InitTimers_loop.simps, simp)
    done
  then show ?thesis
    by (simp add: Sys_InitTimers_def startup_with_counter_def shifted_count_def
          initial_timers_def)
qed

text \<open>[C6] The last clause of the claim fails where the shifts drop set bits of the
  frequency. The frequency 14318180 needs three shifts and is scaled to 1789772,
  although \<open>14318180 / 8 = 1789772.5\<close>. For a delta of 1789772 shifted ticks,
  which the counter needs \<open>14318176 / 14318180\<close> seconds for, \<open>timer_pfreq\<close> times
  the delta is 1 second: more than \<open>2 * 10^-7\<close> seconds too much.\<close>

theorem scaled_frequency_drops_low_bits:
  "timer_lowshift (Sys_InitTimers (startup_with_counter 14318180 0) initial_timers) = 3
   \<and> timer_pfreq (Sys_InitTimers (startup_with_counter 14318180 0) initial_timers)
       = 1 / 1789772
   \<and> timer_pfreq (Sys_InitTimers (startup_with_counter 14318180 0) initial_timers)
       * real 1789772 = 1
   \<and> real (1789772 * 2 ^ 3) / real (QuadPart \<lparr>LowPart = 14318180, HighPart = 0\<rparr>)
       = 3579544 / 3579545
   \<and> (2 :: real) / 10000000 < 1 - 3579544 / 3579545"
  by (simp add: Sys_InitTimers_14MHz QuadPart_def)

text \<open>[C6, amended] When \<open>QueryPerformanceFrequency\<close> succeeds with the 64-bit frequency
  \<open>F\<close> (not zero), \<open>Sys_InitTimers\<close> shifts the pair of halves right one bit at a
  time and stops at the first shift count \<open>k\<close> with \<open>F div 2^k \<le> 2000000\<close>: the
  high half is then zero and the low half is \<open>F div 2^k\<close> (at least 1000000 when a
  shift was needed). It records \<open>k\<close> in \<open>timer_lowshift\<close> and sets
  \<open>timer_pfreq = 1 / (F div 2^k)\<close>. The first sample and the reading of every
  later \<open>Sys_DoubleTime\<close> call are the counter shifted by the same \<open>k\<close> (for
  \<open>0 < k < 32\<close>: the low 32 bits of the 64-bit count divided by \<open>2^k\<close>). So
  \<open>timer_pfreq\<close> times a delta \<open>d\<close> of shifted readings is \<open>d / (F div 2^k)\<close>
  seconds. That is the \<open>d * 2^k / F\<close> seconds the counter took when \<open>2^k\<close>
  divides \<open>F\<close>; in general it is not below them and exceeds them by a relative
  error of at most \<open>1 / (F div 2^k)\<close>, from the bits of \<open>F\<close> shifted out.\<close>

theorem Sys_InitTimers_scales_frequency:
  assumes "QueryPerformanceFrequency api = Some freq"
    and "QuadPart freq \<noteq> 0"
    and "s' = Sys_InitTimers api s"
    and "k = timer_lowshift s'"
  shows "Sys_InitTimers_loop (LowPart freq) (HighPart freq) 0
           = (of_nat (QuadPart freq div 2 ^ k), 0, k)
       \<and> 0 < QuadPart freq div 2 ^ k
       \<and> QuadPart freq div 2 ^ k \<le> 2000000
       \<and> (\<forall>j < k. 2000000 < QuadPart freq div 2 ^ j)
       \<and> (0 < k \<longrightarrow> 1000000 \<le> QuadPart freq div 2 ^ k)
       \<and> timer_pfreq s' = 1 / real (QuadPart freq div 2 ^ k)
       \<and> 0 < timer_pfreq s'
       \<and> timer_oldtime s' = shifted_count k (QueryPerformanceCounter api)
       \<and> (\<not> timer_fallback s'
            \<longrightarrow> timer_oldtime (snd (Sys_DoubleTime api' s'))
                = shifted_count k (QueryPerformanceCounter api')
              \<and> timer_lowshift (snd (Sys_DoubleTime api' s')) = k)
       \<and> (0 < k \<and> k < 32
            \<longrightarrow> shifted_count k (QueryPerformanceCounter api')
                = of_nat (QuadPart (QueryPerformanceCounter api') div 2 ^ k))
       \<and> timer_pfreq s' * real d = real d / real (QuadPart freq div 2 ^ k)
       \<and> (2 ^ k dvd QuadPart freq
            \<longrightarrow> timer_pfreq s' * real d = real (d * 2 ^ k) / real (QuadPart freq))
       \<and> real d * 2 ^ k / real (QuadPart freq) \<le> timer_pfreq s' * real d
       \<and> timer_pfreq s' * real d
            \<le> (real d * 2 ^ k / real (QuadPart freq))
              * (1 + 1 / real (QuadPart freq div 2 ^ k))"
proof -
  note sc = Sys_InitTimers_scaled [OF assms(1,3,4)]
  have pos: "0 < QuadPart freq div 2 ^ k"
  proof (cases "k = 0")
    case True
    with assms(2) show ?thesis by simp
  next
    case False
    with sc(4) show ?thesis by simp
  qed
  from pos have ppos: "0 < timer_pfreq s'"
    by (simp add: sc(5))
  have later: "\<not> timer_fallback s'
            \<longrightarrow> timer_oldtime (snd (Sys_DoubleTime api' s'))
                = shifted_count k (QueryPerformanceCounter api')
              \<and> timer_lowshift (snd (Sys_DoubleTime api' s')) = k"
    using assms(4) by (simp add: Sys_DoubleTime_primary_frame)
  have shifted: "0 < k \<and> k < 32
            \<longrightarrow> shifted_count k (QueryPerformanceCounter api')
                = of_nat (QuadPart (QueryPerformanceCounter api') div 2 ^ k)"
    by (simp add: shifted_count_value)
  have secs: "timer_pfreq s' * real d = real d / real (QuadPart freq div 2 ^ k)"
    by (simp add: sc(5))
  have exact: "2 ^ k dvd QuadPart freq
            \<longrightarrow> timer_pfreq s' * real d = real (d * 2 ^ k) / real (QuadPart freq)"
  proof
    assume "2 ^ k dvd QuadPart freq"
    then have "real (QuadPart freq div 2 ^ k) = real (QuadPart freq) / 2 ^ k"
      by (simp add: real_of_nat_div)
    with secs show "timer_pfreq s' * real d = real (d * 2 ^ k) / real (QuadPart freq)"
      by simp
  qed
  have lower: "real d * 2 ^ k / real (QuadPart freq) \<le> timer_pfreq s' * real d"
    unfolding secs by (rule scaled_seconds_bounds(1) [OF pos])
  have upper: "timer_pfreq s' * real d
            \<le> (real d * 2 ^ k / real (QuadPart freq))
              * (1 + 1 / real (QuadPart freq div 2 ^ k))"
    unfolding secs by (rule scaled_seconds_bounds(2) [OF pos])
  show ?thesis by (intro conjI sc pos ppos later shifted secs exact lower upper)
qed

lemma Sys_InitTimers_16MHz:
  "Sys_InitTimers (startup_with_counter 16000000 40) initial_timers =
     initial_timers\<lparr>timer_lowshift := 3, timer_pfreq := 1 / 2000000, timer_oldtime := 5\<rparr>"
proof -
  have "Sys_InitTimers_loop 16000000 0 0 = (2000000, 0, 3)"
    apply (subst Sys_InitTimers_loop.simps, simp)
    apply (subst Sys_InitTimers_loop.simps, simp)
    apply (subst Sys_InitTimers_loop.simps, simp)
    apply (subst Sys_InitTimers_loop.simps, simp)
    done
  then show ?thesis
    by (simp add: Sys_InitTimers_def startup_with_counter_def shifted_count_def
          initial_timers_def)
qed

theorem Sys_InitTimers_scales_frequency_witness:
  "QueryPerformanceFrequency (startup_with_counter 16000000 40)
     = Some \<lparr>LowPart = 16000000, HighPart = 0\<rparr>
   \<and> timer_lowshift (Sys_InitTimers (startup_with_counter 16000000 40) initial_timers) = 3
   \<and> Sys_InitTimers_loop 16000000 0 0 = (2000000, 0, 3)
   \<and> \<not> timer_fallback (Sys_InitTimers (startup_with_counter 16000000 40) initial_timers)
   \<and> (2::nat) ^ 3 dvd QuadPart \<lparr>LowPart = 16000000, HighPart = 0\<rparr>
   \<and> timer_pfreq (Sys_InitTimers (startup_with_counter 16000000 40) initial_timers)
       * real 500000 = 1 / 4
   \<and> timer_oldtime (snd (Sys_DoubleTime (counter_reads 4000040)
         (Sys_InitTimers (startup_with_counter 16000000 40) initial_timers))) = 500005"
proof -
  have qpf: "QueryPerformanceFrequency (startup_with_counter 16000000 40)
     = Some \<lparr>LowPart = 16000000, HighPart = 0\<rparr>"
    by (simp add: startup_with_counter_def)
  have k: "3 = timer_lowshift (Sys_InitTimers (startup_with_counter 16000000 40) initial_timers)"
    by (simp add: Sys_InitTimers_16MHz)
  have nf: "\<not> timer_fallback (Sys_InitTimers (startup_with_counter 16000000 40) initial_timers)"
    unfolding Sys_InitTimers_16MHz by (simp add: initial_timers_def)
  have q: "QuadPart \<lparr>LowPart = 16000000, HighPart = 0\<rparr> = 16000000"
    by (simp add: QuadPart_def)
  have sh: "shifted_count 3 (QueryPerformanceCounter (counter_reads 4000040)) = 500005"
    by (simp add: shifted_count_def counter_reads_def)
  have nz: "QuadPart \<lparr>LowPart = 16000000, HighPart = 0\<rparr> \<noteq> 0"
    by (simp add: q)
  note w = Sys_InitTimers_scales_frequency [OF qpf nz refl k, of "counter_reads 4000040" 500000]
  from w have a: "Sys_InitTimers_loop 16000000 0 0 = (2000000, 0, 3)"
    by (simp add: q)
  from w nf have b: "timer_oldtime (snd (Sys_DoubleTime (counter_reads 4000040)
         (Sys_InitTimers (startup_with_counter 16000000 40) initial_timers))) = 500005"
    by (simp add: sh)
  from w have c: "timer_pfreq (Sys_InitTimers (startup_with_counter 16000000 40) initial_timers)
       * real 500000 = 1 / 4"
    by (simp add: q)
  from qpf k nf a b c show ?thesis by (simp add: q)
qed

end
